theory Spec2Isabelle
  imports Main
begin

section \<open>Text: characters, case mapping, substrings\<close>

text \<open>
  Python strings are modelled as \<^typ>\<open>string\<close>. The model covers ASCII text: the
  character classes and the case mappings below are the ASCII part of Python's
  \<^verbatim>\<open>str.lower\<close>, \<^verbatim>\<open>str.upper\<close>, \<^verbatim>\<open>str.strip\<close> and of the classes
  \<^verbatim>\<open>\d\<close>, \<^verbatim>\<open>\s\<close>, \<^verbatim>\<open>\w\<close> of the \<^verbatim>\<open>re\<close> module; a character outside
  ASCII belongs to no class and has no other case.
\<close>

definition upper_letters :: string where
  "upper_letters = ''ABCDEFGHIJKLMNOPQRSTUVWXYZ''"

definition lower_letters :: string where
  "lower_letters = ''abcdefghijklmnopqrstuvwxyz''"

definition digit_chars :: string where
  "digit_chars = ''0123456789''"

definition lower_char :: "char \<Rightarrow> char" where
  "lower_char c = (case map_of (zip upper_letters lower_letters) c of Some d \<Rightarrow> d | None \<Rightarrow> c)"

definition upper_char :: "char \<Rightarrow> char" where
  "upper_char c = (case map_of (zip lower_letters upper_letters) c of Some d \<Rightarrow> d | None \<Rightarrow> c)"

definition lower :: "string \<Rightarrow> string" where
  "lower s = map lower_char s"

definition upper :: "string \<Rightarrow> string" where
  "upper s = map upper_char s"

definition is_digit :: "char \<Rightarrow> bool" where
  "is_digit c = (c \<in> set digit_chars)"

text \<open>Whitespace as \<^verbatim>\<open>str.isspace\<close>, \<^verbatim>\<open>str.strip\<close> and \<^verbatim>\<open>\s\<close> see it in ASCII:
  tab, line feed, vertical tab, form feed, carriage return, the four separators
  0x1C to 0x1F, and the space.\<close>

definition is_space :: "char \<Rightarrow> bool" where
  "is_space c = (c \<in> set [CHR 0x09, CHR 0x0A, CHR 0x0B, CHR 0x0C, CHR 0x0D,
                            CHR 0x1C, CHR 0x1D, CHR 0x1E, CHR 0x1F, CHR 0x20])"

definition is_word :: "char \<Rightarrow> bool" where
  "is_word c = (c \<in> set lower_letters \<or> c \<in> set upper_letters \<or> c \<in> set digit_chars \<or> c = CHR ''_'')"

definition strip :: "string \<Rightarrow> string" where
  "strip s = rev (dropWhile is_space (rev (dropWhile is_space s)))"

fun startswith :: "string \<Rightarrow> string \<Rightarrow> bool" where
  "startswith s [] = True"
| "startswith [] (d # p) = False"
| "startswith (c # s) (d # p) = (c = d \<and> startswith s p)"

text \<open>\<^verbatim>\<open>p in s\<close> on strings: \<open>p\<close> occurs in \<open>s\<close> as a contiguous substring.\<close>

fun contains :: "string \<Rightarrow> string \<Rightarrow> bool" where
  "contains [] p = (p = [])"
| "contains (c # s) p = (startswith (c # s) p \<or> contains s p)"

text \<open>A character of ASCII: one with a code below 128.\<close>

definition is_ascii :: "char \<Rightarrow> bool" where
  "is_ascii c = (of_char c < (128 :: nat))"

text \<open>The number that a string of decimal digits denotes, and the decimal digits
  of a natural number. Python's integers are unbounded, as \<^typ>\<open>nat\<close> is.\<close>

definition digit_value :: "char \<Rightarrow> nat" where
  "digit_value c =
     (case map_of (zip digit_chars [0, 1, 2, 3, 4, 5, 6, 7, 8, 9]) c of Some d \<Rightarrow> d | None \<Rightarrow> 0)"

definition decimal_value :: "string \<Rightarrow> nat" where
  "decimal_value s = foldl (\<lambda>n c. 10 * n + digit_value c) 0 s"

definition digit_char :: "nat \<Rightarrow> char" where
  "digit_char d = digit_chars ! d"

fun str_nat :: "nat \<Rightarrow> string" where
  "str_nat n = (if n < 10 then [digit_char n] else str_nat (n div 10) @ [digit_char (n mod 10)])"

declare str_nat.simps [simp del]

section \<open>Exceptions, and the conversions between numbers and strings\<close>

text \<open>An exception that a function raises is a value \<open>Inl e\<close> of its result.\<close>

datatype error = ValueError | OverflowError | KeyError | AttributeError | BackendError

text \<open>
  \<^verbatim>\<open>int(s)\<close> and \<^verbatim>\<open>str(n)\<close>. The interpreter limits the conversions between
  \<^verbatim>\<open>int\<close> and \<^verbatim>\<open>str\<close> in base 10: it neither reads nor prints more than
  \<^verbatim>\<open>sys.get_int_max_str_digits()\<close> digits, 4300 unless the limit is changed, which
  these sources do not do, and raises \<^verbatim>\<open>ValueError\<close> beyond. Every digit of the
  string counts, leading zeros too. \<open>py_int\<close> is \<^verbatim>\<open>int\<close> on the strings that the
  sources convert, which are group 1 of \<^verbatim>\<open>(\d+)\<close>; a sign, blanks or underscores,
  which \<^verbatim>\<open>int\<close> would also read, are not part of it. \<open>py_str\<close> is \<^verbatim>\<open>str\<close> on a
  natural number, and the text that an f-string puts for it.
\<close>

definition max_str_digits :: nat where
  "max_str_digits = 4300"

definition py_int :: "string \<Rightarrow> error + nat" where
  "py_int s =
     (if s = [] \<or> \<not> list_all is_digit s \<or> max_str_digits < length s then Inl ValueError
      else Inr (decimal_value s))"

definition py_str :: "nat \<Rightarrow> error + string" where
  "py_str n = (if max_str_digits < length (str_nat n) then Inl ValueError else Inr (str_nat n))"

section \<open>Regular expressions\<close>

text \<open>
  The part of Python's \<^verbatim>\<open>re\<close> that the sources use, as a backtracking matcher.
  A repetition only ever applies to a character class in these sources, so \<open>Many\<close>
  is the greedy repetition of a class with a minimal count (\<^verbatim>\<open>*\<close> is \<open>Many c 0\<close>,
  \<^verbatim>\<open>+\<close> is \<open>Many c 1\<close>); \<open>Opt\<close> is the greedy \<^verbatim>\<open>?\<close>; \<open>WordB\<close> is \<^verbatim>\<open>\b\<close>;
  \<open>Bol\<close> is \<^verbatim>\<open>^\<close> and \<open>Eol\<close> is \<^verbatim>\<open>$\<close> without the multi-line flag, so \<open>Eol\<close>
  holds at the end of the text and also just before a line feed that ends it.

  A matcher state is the character before the cursor (none at the start of the
  text), the text from the cursor on, and the groups captured so far. \<open>ms r st\<close>
  lists every way \<open>r\<close> can match from \<open>st\<close>, in the order in which backtracking tries
  them; the first one is the match Python reports.
\<close>

datatype rx =
    Cls "char \<Rightarrow> bool"
  | Lit string
  | Many "char \<Rightarrow> bool" nat
  | Opt rx
  | Seq rx rx
  | Alt rx rx
  | Grp nat rx
  | WordB
  | Bol
  | Eol

type_synonym groups = "nat \<rightharpoonup> string"

type_synonym mstate = "char option \<times> string \<times> groups"

definition prev_after :: "char option \<Rightarrow> string \<Rightarrow> nat \<Rightarrow> char option" where
  "prev_after p s n = (if n = 0 then p else Some (s ! (n - 1)))"

definition word_before :: "char option \<Rightarrow> bool" where
  "word_before p = (case p of None \<Rightarrow> False | Some c \<Rightarrow> is_word c)"

definition word_after :: "string \<Rightarrow> bool" where
  "word_after s = (case s of [] \<Rightarrow> False | c # _ \<Rightarrow> is_word c)"

fun ms :: "rx \<Rightarrow> mstate \<Rightarrow> mstate list" where
  "ms (Cls P) (p, s, g) =
     (case s of [] \<Rightarrow> [] | c # t \<Rightarrow> if P c then [(Some c, t, g)] else [])"
| "ms (Lit l) (p, s, g) =
     (if startswith s l then [(prev_after p s (length l), drop (length l) s, g)] else [])"
| "ms (Many P n) (p, s, g) =
     map (\<lambda>j. (prev_after p s j, drop j s, g)) (rev [n ..< Suc (length (takeWhile P s))])"
| "ms (Opt r) (p, s, g) = ms r (p, s, g) @ [(p, s, g)]"
| "ms (Seq r1 r2) (p, s, g) = concat (map (ms r2) (ms r1 (p, s, g)))"
| "ms (Alt r1 r2) (p, s, g) = ms r1 (p, s, g) @ ms r2 (p, s, g)"
| "ms (Grp n r) (p, s, g) =
     map (\<lambda>(p', s', g'). (p', s', g'(n \<mapsto> take (length s - length s') s))) (ms r (p, s, g))"
| "ms WordB (p, s, g) = (if word_before p \<noteq> word_after s then [(p, s, g)] else [])"
| "ms Bol (p, s, g) = (if p = None then [(p, s, g)] else [])"
| "ms Eol (p, s, g) = (if s = [] \<or> s = [CHR 0x0A] then [(p, s, g)] else [])"

text \<open>\<^verbatim>\<open>re.match\<close> tries the start of the text only; \<^verbatim>\<open>re.search\<close> tries every
  position from left to right, the end of the text included. Both give the groups
  of the first match.\<close>

definition re_match :: "rx \<Rightarrow> string \<Rightarrow> groups option" where
  "re_match r text = (case ms r (None, text, Map.empty) of [] \<Rightarrow> None | (_, _, g) # _ \<Rightarrow> Some g)"

fun search_from :: "rx \<Rightarrow> char option \<Rightarrow> string \<Rightarrow> groups option" where
  "search_from r p s =
     (case ms r (p, s, Map.empty) of
        (_, _, g) # _ \<Rightarrow> Some g
      | [] \<Rightarrow> (case s of [] \<Rightarrow> None | c # t \<Rightarrow> search_from r (Some c) t))"

declare search_from.simps [simp del]

definition re_search :: "rx \<Rightarrow> string \<Rightarrow> groups option" where
  "re_search r text = search_from r None text"

text \<open>\<^verbatim>\<open>match.group(n)\<close>; every group of the patterns below takes part in every
  match of its pattern.\<close>

definition group :: "groups \<Rightarrow> nat \<Rightarrow> string" where
  "group g n = (case g n of Some s \<Rightarrow> s | None \<Rightarrow> [])"

fun cat :: "rx list \<Rightarrow> rx" where
  "cat [] = Lit []"
| "cat [r] = r"
| "cat (r # rs) = Seq r (cat rs)"

fun alts :: "string list \<Rightarrow> rx" where
  "alts [] = Cls (\<lambda>c. False)"
| "alts [l] = Lit l"
| "alts (l # ls) = Alt (Lit l) (alts ls)"

section \<open>Intent parser: category detection\<close>

text \<open>
  \<^verbatim>\<open>AIIntentParser._detect_intent_type_flexible\<close>. The dictionary
  \<^verbatim>\<open>intent_keywords\<close> is an association list in the order of the source, which is
  the order Python iterates it in. The categories of the specification are the
  strings of the code: CheckHealth is \<^verbatim>\<open>check_abnormality\<close>, ListServices is
  \<^verbatim>\<open>list_services\<close>, and so on; GeneralQuestion is \<^verbatim>\<open>general_question\<close>.
\<close>

definition intent_keywords :: "(string \<times> string list) list" where
  "intent_keywords =
    [(''check_abnormality'',
        [''check'', ''status'', ''health'', ''issue'', ''problem'', ''error'',
         ''alert'', ''wrong'', ''failing'', ''down'', ''broken'', ''not working'',
         ''abnormal'', ''anomaly'', ''investigate'', ''look into'', ''whats up with'',
         ''how is'', ''how are'', ''happening with'', ''going on'']),
     (''list_services'',
        [''list'', ''show all'', ''show me'', ''get all'', ''what services'',
         ''available services'', ''which services'', ''all services'',
         ''what do we have'', ''what applications'', ''show services'']),
     (''service_details'',
        [''details about'', ''info about'', ''information on'', ''tell me about'',
         ''what is'', ''describe'', ''explain'', ''more about'']),
     (''metrics_analysis'',
        [''metrics'', ''performance'', ''stats'', ''statistics'', ''kpi'',
         ''how fast'', ''response time'', ''latency'', ''throughput'',
         ''cpu'', ''memory'', ''disk'', ''analyze'', ''analysis'']),
     (''compare_services'',
        [''compare'', ''comparison'', ''versus'', ''vs'', ''difference between'',
         ''which is better'', ''against'', ''relative to'']),
     (''troubleshoot'',
        [''troubleshoot'', ''diagnose'', ''debug'', ''fix'', ''solve'',
         ''why is'', ''root cause'', ''reason for'', ''causing'',
         ''slow'', ''help with'', ''figure out''])]"

text \<open>\<^verbatim>\<open>sum(1 for keyword in keywords if keyword in text)\<close>\<close>

definition keyword_score :: "string \<Rightarrow> string list \<Rightarrow> nat" where
  "keyword_score text keywords = length (filter (\<lambda>keyword. contains text keyword) keywords)"

text \<open>The loop that fills the dictionary \<^verbatim>\<open>scores\<close>: an intent gets an entry only
  when its score is positive, and the entries keep the order of insertion.\<close>

fun build_scores :: "string \<Rightarrow> (string \<times> string list) list \<Rightarrow> (string \<times> nat) list" where
  "build_scores text [] = []"
| "build_scores text ((intent, keywords) # rest) =
     (let score = keyword_score text keywords
      in if score > 0 then (intent, score) # build_scores text rest
         else build_scores text rest)"

text \<open>\<^verbatim>\<open>max(scores, key=scores.get)\<close>: Python's \<^verbatim>\<open>max\<close> walks the keys in order and
  replaces the best one only by a strictly greater one.\<close>

fun py_max_key :: "(string \<times> nat) \<Rightarrow> (string \<times> nat) list \<Rightarrow> (string \<times> nat)" where
  "py_max_key best [] = best"
| "py_max_key best (x # xs) = py_max_key (if snd x > snd best then x else best) xs"

definition detect_intent_type_flexible :: "string \<Rightarrow> string" where
  "detect_intent_type_flexible text =
     (case build_scores text intent_keywords of
        [] \<Rightarrow> ''general_question''
      | s # ss \<Rightarrow> fst (py_max_key s ss))"

text \<open>The score of a category, for stating properties: the score of its keyword
  list, zero for a name that is no category.\<close>

definition score_of :: "string \<Rightarrow> string \<Rightarrow> nat" where
  "score_of text intent =
     (case map_of intent_keywords intent of
        Some keywords \<Rightarrow> keyword_score text keywords
      | None \<Rightarrow> 0)"

definition precedence :: "string list" where
  "precedence = map fst intent_keywords"

section \<open>Timeframes\<close>

text \<open>
  \<^verbatim>\<open>utils/timeframe.py\<close>. Both functions match the lower-cased argument against
  \<^verbatim>\<open>^(\d+)([mhdw])$\<close> with \<^verbatim>\<open>re.match\<close>, and convert group 1 with \<^verbatim>\<open>int\<close> before
  they do anything else.
\<close>

definition is_unit :: "char \<Rightarrow> bool" where
  "is_unit c = (c \<in> set ''mhdw'')"

definition timeframe_rx :: rx where
  "timeframe_rx = cat [Bol, Grp 1 (Many is_digit 1), Grp 2 (Cls is_unit), Eol]"

text \<open>
  A \<^verbatim>\<open>datetime\<close> is counted in microseconds since \<^verbatim>\<open>datetime.min\<close>, the start of
  year 1; \<^verbatim>\<open>datetime.max\<close> is the last microsecond of year 9999, day number 3652059.
  A \<^verbatim>\<open>timedelta\<close> is a number of microseconds, of magnitude below 1000000000 days.
  Building a \<^verbatim>\<open>timedelta\<close> out of range raises \<^verbatim>\<open>OverflowError\<close>, and so does a
  subtraction whose result is no \<^verbatim>\<open>datetime\<close>. The clock \<^verbatim>\<open>datetime.utcnow()\<close> is
  the parameter \<open>now\<close>.
\<close>

type_synonym datetime = int

definition microseconds_per_day :: int where
  "microseconds_per_day = 86400 * 1000000"

definition valid_datetime :: "datetime \<Rightarrow> bool" where
  "valid_datetime t = (0 \<le> t \<and> t < 3652059 * microseconds_per_day)"

datatype kwarg = Minutes | Hours | Days | Weeks

definition unit_mapping :: "string \<rightharpoonup> kwarg" where
  "unit_mapping = map_of [(''m'', Minutes), (''h'', Hours), (''d'', Days), (''w'', Weeks)]"

fun kwarg_microseconds :: "kwarg \<Rightarrow> int" where
  "kwarg_microseconds Minutes = 60 * 1000000"
| "kwarg_microseconds Hours = 3600 * 1000000"
| "kwarg_microseconds Days = 86400 * 1000000"
| "kwarg_microseconds Weeks = 7 * 86400 * 1000000"

definition timedelta :: "kwarg \<Rightarrow> nat \<Rightarrow> error + int" where
  "timedelta k v =
     (let us = int v * kwarg_microseconds k
      in if us < 1000000000 * microseconds_per_day then Inr us else Inl OverflowError)"

definition datetime_sub :: "datetime \<Rightarrow> int \<Rightarrow> error + datetime" where
  "datetime_sub t d = (if valid_datetime (t - d) then Inr (t - d) else Inl OverflowError)"

definition parse_timeframe :: "datetime \<Rightarrow> string \<Rightarrow> error + (datetime \<times> datetime)" where
  "parse_timeframe now timeframe =
     (case re_match timeframe_rx (lower timeframe) of
        None \<Rightarrow> Inl ValueError
      | Some m \<Rightarrow>
          (case py_int (group m 1) of
             Inl e \<Rightarrow> Inl e
           | Inr value \<Rightarrow>
               (let unit = group m 2
                in case unit_mapping unit of
                     None \<Rightarrow> Inl KeyError
                   | Some k \<Rightarrow>
                       (case timedelta k value of
                          Inl e \<Rightarrow> Inl e
                        | Inr delta \<Rightarrow>
                            (case datetime_sub now delta of
                               Inl e \<Rightarrow> Inl e
                             | Inr from_time \<Rightarrow> Inr (from_time, now))))))"

definition unit_names :: "nat \<Rightarrow> string \<rightharpoonup> string" where
  "unit_names value =
     map_of [(''m'', if value = 1 then ''minute'' else ''minutes''),
             (''h'', if value = 1 then ''hour'' else ''hours''),
             (''d'', if value = 1 then ''day'' else ''days''),
             (''w'', if value = 1 then ''week'' else ''weeks'')]"

definition human_readable_timeframe :: "string \<Rightarrow> error + string" where
  "human_readable_timeframe timeframe =
     (case re_match timeframe_rx (lower timeframe) of
        None \<Rightarrow> Inr timeframe
      | Some m \<Rightarrow>
          (case py_int (group m 1) of
             Inl e \<Rightarrow> Inl e
           | Inr value \<Rightarrow>
               (let unit = group m 2
                in case py_str value of
                     Inl e \<Rightarrow> Inl e
                   | Inr printed \<Rightarrow>
                       (case unit_names value unit of
                          None \<Rightarrow> Inl KeyError
                        | Some unit_name \<Rightarrow>
                            Inr (''Last '' @ printed @ '' '' @ unit_name)))))"

text \<open>The timeframe grammar of the specification, \<^verbatim>\<open>^[0-9]+[mhdw]$\<close>, read as a
  language: one or more decimal digits, then one unit letter, and nothing else.\<close>

definition canonical_timeframe :: "string \<Rightarrow> bool" where
  "canonical_timeframe s =
     (s \<noteq> [] \<and> butlast s \<noteq> [] \<and> list_all is_digit (butlast s) \<and> is_unit (last s))"

section \<open>Intent parser: the pattern tier\<close>

text \<open>\<^verbatim>\<open>AIIntentParser._extract_service_name_flexible\<close> and
  \<^verbatim>\<open>AIIntentParser._extract_timeframe_flexible\<close>, pattern by pattern.\<close>

definition name_char :: "char \<Rightarrow> bool" where
  "name_char c = (c \<in> set lower_letters \<or> c \<in> set upper_letters \<or> c \<in> set digit_chars
                  \<or> c \<in> set ''-_.'')"

definition name_char_nodot :: "char \<Rightarrow> bool" where
  "name_char_nodot c = (c \<in> set lower_letters \<or> c \<in> set upper_letters \<or> c \<in> set digit_chars
                        \<or> c \<in> set ''-_'')"

definition colon_or_space :: "char \<Rightarrow> bool" where
  "colon_or_space c = (c = CHR '':'' \<or> is_space c)"

definition is_quote :: "char \<Rightarrow> bool" where
  "is_quote c = (c = CHR 0x22 \<or> c = CHR 0x27)"

definition service_rx_for :: rx where
  "service_rx_for = cat [WordB, Lit ''for'', Many colon_or_space 1, Grp 1 (Many name_char 1)]"

definition service_rx_of_about :: rx where
  "service_rx_of_about =
     cat [WordB, alts [''of'', ''about''], Many colon_or_space 1, Grp 1 (Many name_char 1)]"

definition service_rx_after :: rx where
  "service_rx_after = cat [WordB, Lit ''service'', Many colon_or_space 1, Grp 1 (Many name_char 1)]"

definition service_rx_before :: rx where
  "service_rx_before = cat [Grp 1 (Many name_char 1), Many is_space 1, Lit ''service'', WordB]"

definition service_rx_quoted :: rx where
  "service_rx_quoted = cat [Cls is_quote, Grp 1 (Many name_char 1), Cls is_quote]"

definition service_patterns :: "rx list" where
  "service_patterns =
     [cat [WordB,
           Grp 1 (Seq (Many name_char_nodot 1)
                      (alts [''api'', ''service'', ''controller'', ''backend'', ''frontend'',
                             ''gateway'', ''proxy''])),
           WordB],
      cat [WordB, alts [''api'', ''service'', ''controller''], Cls (\<lambda>c. c \<in> set ''-_''),
           Grp 1 (Many name_char_nodot 1), WordB]]"

definition action_words :: "string list" where
  "action_words = [''check'', ''analyze'', ''monitor'', ''debug'', ''fix'', ''look'', ''see'', ''show'']"

definition action_rx :: "string \<Rightarrow> rx" where
  "action_rx action =
     cat [WordB, Lit action, Many is_space 1, Opt (Seq (Lit ''the'') (Many is_space 1)),
          Grp 1 (Many name_char 1), WordB]"

fun first_group :: "rx list \<Rightarrow> string \<Rightarrow> string option" where
  "first_group [] text = None"
| "first_group (pattern # patterns) text =
     (case re_search pattern text of
        Some m \<Rightarrow> Some (group m 1)
      | None \<Rightarrow> first_group patterns text)"

fun after_action :: "string list \<Rightarrow> string \<Rightarrow> string option" where
  "after_action [] text = None"
| "after_action (action # actions) text =
     (case re_search (action_rx action) text of
        Some m \<Rightarrow>
          (let candidate = group m 1
           in if candidate \<notin> set [''service'', ''services'', ''status'', ''health'', ''metrics'', ''issues'']
              then Some candidate
              else after_action actions text)
      | None \<Rightarrow> after_action actions text)"

definition extract_service_name_flexible :: "string \<Rightarrow> string option" where
  "extract_service_name_flexible text =
     (case first_group [service_rx_for, service_rx_of_about, service_rx_after, service_rx_before,
                        service_rx_quoted] text of
        Some name \<Rightarrow> Some name
      | None \<Rightarrow>
          (case first_group service_patterns text of
             Some name \<Rightarrow> Some name
           | None \<Rightarrow> after_action action_words text))"

definition timeframe_rx_explicit :: rx where
  "timeframe_rx_explicit =
     cat [WordB, Grp 1 (Many is_digit 1), Many is_space 0, Grp 2 (Cls is_unit), WordB]"

definition unit_words :: rx where
  "unit_words = alts [''minute'', ''hour'', ''day'', ''week'']"

definition timeframe_rx_last :: rx where
  "timeframe_rx_last =
     cat [WordB, alts [''last'', ''past'', ''previous'', ''recent''], Many is_space 1,
          Grp 1 (Many is_digit 1), Many is_space 0, Grp 2 unit_words, Opt (Lit ''s''), WordB]"

definition timeframe_rx_in_the_last :: rx where
  "timeframe_rx_in_the_last =
     cat [WordB, Lit ''in'', Many is_space 1, Lit ''the'', Many is_space 1,
          alts [''last'', ''past''], Many is_space 1,
          Grp 1 (Many is_digit 1), Many is_space 0, Grp 2 unit_words, Opt (Lit ''s''), WordB]"

definition time_keywords :: "(string \<times> string) list" where
  "time_keywords =
     [(''today'', ''24h''), (''yesterday'', ''48h''), (''this week'', ''7d''),
      (''this month'', ''30d''), (''recent'', ''2h''), (''recently'', ''2h'')]"

fun keyword_timeframe :: "(string \<times> string) list \<Rightarrow> string \<Rightarrow> string" where
  "keyword_timeframe [] text = ''2h''"
| "keyword_timeframe ((keyword, timeframe) # rest) text =
     (if contains text keyword then timeframe else keyword_timeframe rest text)"

text \<open>\<^verbatim>\<open>match.group(2)[0]\<close>: the first letter of the unit word.\<close>

definition first_letter :: "string \<Rightarrow> string" where
  "first_letter w = take 1 w"

definition extract_timeframe_flexible :: "string \<Rightarrow> string" where
  "extract_timeframe_flexible text =
     (case re_search timeframe_rx_explicit text of
        Some m \<Rightarrow> group m 1 @ group m 2
      | None \<Rightarrow>
          (case re_search timeframe_rx_last text of
             Some m \<Rightarrow> group m 1 @ first_letter (group m 2)
           | None \<Rightarrow>
               (case re_search timeframe_rx_in_the_last text of
                  Some m \<Rightarrow> group m 1 @ first_letter (group m 2)
                | None \<Rightarrow> keyword_timeframe time_keywords text)))"

section \<open>Intents and the two tiers of the parser\<close>

text \<open>
  The intent dictionary. A value is a string or \<^verbatim>\<open>None\<close>, as the wire contract of
  the backend has it; the key \<^verbatim>\<open>type\<close> is the field \<open>intent_type\<close>, and the key
  \<^verbatim>\<open>is_followup\<close>, which only \<^verbatim>\<open>apply_context\<close> sets, is false while it is absent.
\<close>

record intent =
  intent_type :: "string option"
  service_name :: "string option"
  timeframe :: "string option"
  additional_context :: "string option"
  raw_query :: string
  is_followup :: bool

definition parse_with_patterns :: "string \<Rightarrow> intent" where
  "parse_with_patterns text =
     (let text_lower = lower text;
          intent_type = detect_intent_type_flexible text_lower;
          service_name = extract_service_name_flexible text_lower;
          timeframe = extract_timeframe_flexible text_lower;
          intent_type = (if intent_type = [] then ''general_question'' else intent_type)
      in \<lparr>intent_type = Some intent_type,
          service_name = service_name,
          timeframe = Some timeframe,
          additional_context = Some [],
          raw_query = text,
          is_followup = False\<rparr>)"

text \<open>
  The backend. \<^verbatim>\<open>_call_ai\<close> dispatches on the provider's name and raises for a name
  it does not know; for the four providers it knows, the call to the provider is a
  collaborator, \<open>complete\<close>, which gives the reply's text or fails (a timeout, a
  transport error, a status other than 200, a reply without the expected key).
  \<^verbatim>\<open>json.loads\<close> is a collaborator too, \<open>json_loads\<close>: it fails on malformed text, and
  what it decodes is an object, seen as a map from its keys to strings or
  \<^verbatim>\<open>None\<close>, or a value of another kind, which has no method \<^verbatim>\<open>get\<close>.
\<close>

record ai_client =
  provider :: string
  complete :: "string \<Rightarrow> error + string"

datatype json = JObject "string \<rightharpoonup> string option" | JOther

definition call_ai :: "ai_client \<Rightarrow> string \<Rightarrow> error + string" where
  "call_ai client user_prompt =
     (if provider client \<in> set [''openai'', ''anthropic'', ''gemini'', ''ollama'']
      then complete client user_prompt
      else Inl BackendError)"

text \<open>The two substitutions that remove a code fence: \<^verbatim>\<open>^```json\s*\<close> at the start,
  and \<^verbatim>\<open>```\s*$\<close>, whose leftmost match is the first fence followed by nothing but
  whitespace.\<close>

definition fence :: string where
  "fence = [CHR 0x60, CHR 0x60, CHR 0x60]"

definition strip_fence_open :: "string \<Rightarrow> string" where
  "strip_fence_open s =
     (if startswith s (fence @ ''json'') then dropWhile is_space (drop (length (fence @ ''json'')) s)
      else s)"

fun strip_fence_close :: "string \<Rightarrow> string" where
  "strip_fence_close [] = []"
| "strip_fence_close (c # s) =
     (if startswith (c # s) fence \<and> list_all is_space (drop (length fence) (c # s)) then []
      else c # strip_fence_close s)"

definition clean_response :: "string \<Rightarrow> string" where
  "clean_response response =
     (let response_clean = strip response
      in if startswith response_clean fence
         then strip_fence_close (strip_fence_open response_clean)
         else response_clean)"

text \<open>\<^verbatim>\<open>d.get(key, default)\<close> and \<^verbatim>\<open>d.get(key)\<close> on a decoded object.\<close>

definition get_default :: "(string \<rightharpoonup> string option) \<Rightarrow> string \<Rightarrow> string option \<Rightarrow> string option" where
  "get_default d key dflt = (case d key of Some v \<Rightarrow> v | None \<Rightarrow> dflt)"

text \<open>The body of the \<^verbatim>\<open>try\<close> block of \<^verbatim>\<open>_parse_with_ai\<close>, with every exception
  it can raise as a value, and the function itself, whose \<^verbatim>\<open>except\<close> clause turns
  each of them into \<^verbatim>\<open>None\<close>.\<close>

definition parse_with_ai_try ::
  "ai_client \<Rightarrow> (string \<Rightarrow> error + json) \<Rightarrow> string \<Rightarrow> error + intent" where
  "parse_with_ai_try client json_loads user_input =
     (case call_ai client (''User query: '' @ user_input) of
        Inl e \<Rightarrow> Inl e
      | Inr response \<Rightarrow>
          (case json_loads (clean_response response) of
             Inl e \<Rightarrow> Inl e
           | Inr JOther \<Rightarrow> Inl AttributeError
           | Inr (JObject intent_data) \<Rightarrow>
               Inr \<lparr>intent_type = get_default intent_data ''intent_type'' (Some ''general_question''),
                    service_name = get_default intent_data ''service_name'' None,
                    timeframe = get_default intent_data ''timeframe'' (Some ''2h''),
                    additional_context = get_default intent_data ''additional_context'' (Some []),
                    raw_query = user_input,
                    is_followup = False\<rparr>))"

definition parse_with_ai ::
  "ai_client \<Rightarrow> (string \<Rightarrow> error + json) \<Rightarrow> string \<Rightarrow> intent option" where
  "parse_with_ai client json_loads user_input =
     (case parse_with_ai_try client json_loads user_input of
        Inl e \<Rightarrow> None
      | Inr intent \<Rightarrow> Some intent)"

text \<open>\<^verbatim>\<open>AIIntentParser.parse\<close>; the parser's \<^verbatim>\<open>ai_client\<close> is \<^verbatim>\<open>None\<close> when no
  backend is configured. An intent of the backend tier is a dictionary of five
  keys, so it is never empty and \<^verbatim>\<open>if intent\<close> holds for it.\<close>

definition parse ::
  "ai_client option \<Rightarrow> (string \<Rightarrow> error + json) \<Rightarrow> string \<Rightarrow> intent option" where
  "parse client json_loads user_input =
     (if user_input = [] \<or> strip user_input = [] then None
      else
        (let user_input_clean = strip user_input
         in case client of
              None \<Rightarrow> Some (parse_with_patterns user_input_clean)
            | Some c \<Rightarrow>
                (case parse_with_ai c json_loads user_input_clean of
                   Some intent \<Rightarrow> Some intent
                 | None \<Rightarrow> Some (parse_with_patterns user_input_clean))))"

section \<open>Conversation context\<close>

text \<open>\<^verbatim>\<open>main.py\<close>: the dictionary \<^verbatim>\<open>st.session_state.conversation_context\<close> is
  passed explicitly. \<open>truthy\<close> is Python's truth value of a string or \<^verbatim>\<open>None\<close>.\<close>

record conversation_context =
  last_service :: "string option"
  last_intent :: "string option"
  last_timeframe :: "string option"

definition truthy :: "string option \<Rightarrow> bool" where
  "truthy v = (case v of None \<Rightarrow> False | Some s \<Rightarrow> s \<noteq> [])"

definition initial_context :: conversation_context where
  "initial_context = \<lparr>last_service = None, last_intent = None, last_timeframe = Some ''2h''\<rparr>"

definition apply_context :: "conversation_context \<Rightarrow> intent \<Rightarrow> intent" where
  "apply_context context intent =
     (let intent =
            (if \<not> truthy (service_name intent) \<and> truthy (last_service context)
             then (if intent_type intent = last_intent context
                   then intent\<lparr>service_name := last_service context, is_followup := True\<rparr>
                   else intent)
             else intent)
      in if \<not> truthy (timeframe intent) \<or> timeframe intent = Some ''2h''
         then (if truthy (last_timeframe context)
               then intent\<lparr>timeframe := last_timeframe context\<rparr>
               else intent)
         else intent)"

definition update_context :: "conversation_context \<Rightarrow> intent \<Rightarrow> conversation_context" where
  "update_context context intent =
     (let context = (if truthy (service_name intent)
                     then context\<lparr>last_service := service_name intent\<rparr> else context);
          context = (if truthy (intent_type intent)
                     then context\<lparr>last_intent := intent_type intent\<rparr> else context)
      in if truthy (timeframe intent)
         then context\<lparr>last_timeframe := timeframe intent\<rparr> else context)"

section \<open>Problems: filtering by service and categories\<close>

text \<open>
  \<^verbatim>\<open>dynatrace_api/problems.py\<close>. A problem and an entity are dictionaries decoded
  from the monitoring backend's reply; a key is absent (\<open>None\<close>) or holds a value of
  its type. \<open>entityId\<close> is \<^verbatim>\<open>entity["entityId"]["id"]\<close>. The two entity lists are empty
  when their keys are absent, and \<open>rootCauseEntity\<close> is \<open>None\<close> when the key is absent
  or holds an empty dictionary. \<open>relevance\<close> is the key the filters write. The
  parameter \<^verbatim>\<open>service_name\<close> of the filters is \<open>svc_name\<close> here.
\<close>

record entity =
  entityId :: "string option"
  name :: "string option"

record problem =
  problemId :: string
  title :: "string option"
  displayName :: "string option"
  status :: "string option"
  severityLevel :: "string option"
  impactedEntities :: "entity list"
  affectedEntities :: "entity list"
  rootCauseEntity :: "entity option"
  relevance :: "string option"

text \<open>\<^verbatim>\<open>d.get(key, "")\<close> on a key that holds a string.\<close>

definition get_str :: "string option \<Rightarrow> string" where
  "get_str v = (case v of None \<Rightarrow> [] | Some s \<Rightarrow> s)"

definition calculate_relevance :: "problem \<Rightarrow> string \<Rightarrow> string" where
  "calculate_relevance problem entity_id =
     (if (case rootCauseEntity problem of None \<Rightarrow> None | Some root_cause \<Rightarrow> entityId root_cause)
           = Some entity_id
      then ''root_cause''
      else if list_ex (\<lambda>entity. entityId entity = Some entity_id) (impactedEntities problem)
      then ''directly_impacted''
      else ''indirectly_affected'')"

definition all_entities :: "problem \<Rightarrow> entity list" where
  "all_entities problem =
     impactedEntities problem @ affectedEntities problem
       @ (case rootCauseEntity problem of None \<Rightarrow> [] | Some root_cause \<Rightarrow> [root_cause])"

text \<open>The inner loop of \<^verbatim>\<open>_filter_problems_by_entity\<close> over \<^verbatim>\<open>all_entities\<close>: the
  relevance written when the loop breaks, \<open>None\<close> when it runs to its end.\<close>

fun entity_loop :: "problem \<Rightarrow> string \<Rightarrow> string \<Rightarrow> entity list \<Rightarrow> string option" where
  "entity_loop problem entity_id svc_name [] = None"
| "entity_loop problem entity_id svc_name (entity # rest) =
     (if entityId entity = Some entity_id
      then Some (calculate_relevance problem entity_id)
      else (let entity_name = lower (get_str (name entity))
            in if contains entity_name (lower svc_name)
               then Some ''name_match''
               else entity_loop problem entity_id svc_name rest))"

text \<open>The filters change the problems they accept in place, and the list they
  return holds these same objects. Each function gives the pair of the argument
  list as it is after the call and the list returned.\<close>

fun filter_problems_by_entity ::
  "problem list \<Rightarrow> string \<Rightarrow> string \<Rightarrow> problem list \<times> problem list" where
  "filter_problems_by_entity [] entity_id svc_name = ([], [])"
| "filter_problems_by_entity (problem # problems) entity_id svc_name =
     (let (problems', filtered_problems) = filter_problems_by_entity problems entity_id svc_name
      in case entity_loop problem entity_id svc_name (all_entities problem) of
           Some r \<Rightarrow>
             (problem\<lparr>relevance := Some r\<rparr> # problems',
              problem\<lparr>relevance := Some r\<rparr> # filtered_problems)
         | None \<Rightarrow> (problem # problems', filtered_problems))"

definition name_relevance :: "problem \<Rightarrow> string \<Rightarrow> string option" where
  "name_relevance problem service_lower =
     (let title = lower (get_str (title problem));
          display_name = lower (get_str (displayName problem))
      in if contains title service_lower \<or> contains display_name service_lower
         then Some ''title_match''
         else if list_ex (\<lambda>entity. contains (lower (get_str (name entity))) service_lower)
                   (impactedEntities problem @ affectedEntities problem)
         then Some ''entity_match''
         else None)"

fun filter_problems_by_name ::
  "problem list \<Rightarrow> string \<Rightarrow> problem list \<times> problem list" where
  "filter_problems_by_name [] svc_name = ([], [])"
| "filter_problems_by_name (problem # problems) svc_name =
     (let (problems', filtered_problems) = filter_problems_by_name problems svc_name
      in case name_relevance problem (lower svc_name) of
           Some r \<Rightarrow>
             (problem\<lparr>relevance := Some r\<rparr> # problems',
              problem\<lparr>relevance := Some r\<rparr> # filtered_problems)
         | None \<Rightarrow> (problem # problems', filtered_problems))"

text \<open>\<^verbatim>\<open>categorize_problems\<close>: the dictionary of the four lists is a record, and the
  loop appends each problem to one of them.\<close>

record categorized =
  critical :: "problem list"
  important :: "problem list"
  related :: "problem list"
  resolved :: "problem list"

fun categorize_loop :: "categorized \<Rightarrow> problem list \<Rightarrow> categorized" where
  "categorize_loop categorized [] = categorized"
| "categorize_loop categorized (problem # problems) =
     (let status = upper (get_str (status problem));
          severity = upper (get_str (severityLevel problem));
          relevance = (case relevance problem of None \<Rightarrow> ''unknown'' | Some r \<Rightarrow> r)
      in if status = ''RESOLVED''
         then categorize_loop (categorized\<lparr>resolved := resolved categorized @ [problem]\<rparr>) problems
         else if relevance = ''root_cause'' \<or> severity \<in> set [''ERROR'', ''CUSTOM_ALERT'']
         then categorize_loop (categorized\<lparr>critical := critical categorized @ [problem]\<rparr>) problems
         else if relevance = ''directly_impacted''
         then categorize_loop (categorized\<lparr>important := important categorized @ [problem]\<rparr>) problems
         else categorize_loop (categorized\<lparr>related := related categorized @ [problem]\<rparr>) problems)"

definition categorize_problems :: "problem list \<Rightarrow> categorized" where
  "categorize_problems problems =
     categorize_loop \<lparr>critical = [], important = [], related = [], resolved = []\<rparr> problems"

section \<open>Notions used to state the properties of the filters and of the categories\<close>

text \<open>What a filter does to one problem: it writes the relevance when its loop
  accepts the problem and leaves the problem alone otherwise.\<close>

definition entity_relevance :: "problem \<Rightarrow> string \<Rightarrow> string \<Rightarrow> string option" where
  "entity_relevance problem entity_id svc_name =
     entity_loop problem entity_id svc_name (all_entities problem)"

definition write_relevance :: "string option \<Rightarrow> problem \<Rightarrow> problem" where
  "write_relevance r problem = (case r of Some v \<Rightarrow> problem\<lparr>relevance := Some v\<rparr> | None \<Rightarrow> problem)"

text \<open>The bucket \<^verbatim>\<open>categorize_problems\<close> appends a problem to, read off the tests of
  its loop in their order.\<close>

datatype bucket = Resolved | Critical | Important | Related

definition bucket_of :: "problem \<Rightarrow> bucket" where
  "bucket_of problem =
     (if upper (get_str (status problem)) = ''RESOLVED'' then Resolved
      else if relevance problem = Some ''root_cause''
              \<or> upper (get_str (severityLevel problem)) \<in> {''ERROR'', ''CUSTOM_ALERT''} then Critical
      else if relevance problem = Some ''directly_impacted'' then Important
      else Related)"

section \<open>Example data\<close>

text \<open>An open problem of the monitoring backend with no entities, from which the
  examples below are built by updates, and two services.\<close>

definition problem0 :: problem where
  "problem0 =
     \<lparr>problemId = ''P-2401'', title = Some ''Failure rate increase'',
      displayName = Some ''P-2401'', status = Some ''OPEN'',
      severityLevel = Some ''AVAILABILITY'', impactedEntities = [], affectedEntities = [],
      rootCauseEntity = None, relevance = None\<rparr>"

definition payment_service :: entity where
  "payment_service = \<lparr>entityId = Some ''SERVICE-123'', name = Some ''payment''\<rparr>"

definition payment_gateway :: entity where
  "payment_gateway = \<lparr>entityId = Some ''SERVICE-456'', name = Some ''Payment-Gateway''\<rparr>"

text \<open>A backend whose call times out, a backend that replies with an empty JSON
  object, and a decoder that knows the empty object only.\<close>

definition timeout_client :: ai_client where
  "timeout_client = \<lparr>provider = ''ollama'', complete = (\<lambda>prompt. Inl BackendError)\<rparr>"

definition empty_object_client :: ai_client where
  "empty_object_client = \<lparr>provider = ''gemini'', complete = (\<lambda>prompt. Inr ''{}'')\<rparr>"

definition json_loads_example :: "string \<Rightarrow> error + json" where
  "json_loads_example s = (if strip s = ''{}'' then Inr (JObject Map.empty) else Inl ValueError)"

section \<open>What a match of a regular expression says\<close>

text \<open>The declarative reading of a pattern, without anchors, boundaries and
  priorities: \<open>captures r m g g'\<close> holds when \<open>r\<close> can match the text \<open>m\<close> and turns the
  groups \<open>g\<close> into \<open>g'\<close>. The matcher is sound for it, which is how the properties of
  the extraction patterns are proved.\<close>

fun captures :: "rx \<Rightarrow> string \<Rightarrow> groups \<Rightarrow> groups \<Rightarrow> bool" where
  "captures (Cls P) m g g' = ((\<exists>c. m = [c] \<and> P c) \<and> g' = g)"
| "captures (Lit l) m g g' = (m = l \<and> g' = g)"
| "captures (Many P n) m g g' = (n \<le> length m \<and> list_all P m \<and> g' = g)"
| "captures (Opt r) m g g' = ((m = [] \<and> g' = g) \<or> captures r m g g')"
| "captures (Seq r1 r2) m g g' =
     (\<exists>m1 m2 g1. m = m1 @ m2 \<and> captures r1 m1 g g1 \<and> captures r2 m2 g1 g')"
| "captures (Alt r1 r2) m g g' = (captures r1 m g g' \<or> captures r2 m g g')"
| "captures (Grp n r) m g g' = (\<exists>g1. captures r m g g1 \<and> g' = g1(n \<mapsto> m))"
| "captures WordB m g g' = (m = [] \<and> g' = g)"
| "captures Bol m g g' = (m = [] \<and> g' = g)"
| "captures Eol m g g' = (m = [] \<and> g' = g)"

section \<open>Notions used to state the properties of the timeframe functions\<close>

text \<open>The grammar \<^verbatim>\<open>^[0-9]+[mhdw]$\<close> as Python's \<^verbatim>\<open>re.match\<close> reads it: a canonical
  timeframe, which one line feed may follow. The length of a unit in microseconds,
  and the singular of its name.\<close>

definition matches_timeframe :: "string \<Rightarrow> bool" where
  "matches_timeframe s =
     (canonical_timeframe s \<or> (s \<noteq> [] \<and> last s = CHR 0x0A \<and> canonical_timeframe (butlast s)))"

definition unit_microseconds :: "char \<Rightarrow> int" where
  "unit_microseconds u =
     (if u = CHR ''m'' then 60 * 1000000
      else if u = CHR ''h'' then 60 * 60 * 1000000
      else if u = CHR ''d'' then 24 * 60 * 60 * 1000000
      else 7 * 24 * 60 * 60 * 1000000)"

definition unit_word :: "char \<Rightarrow> string" where
  "unit_word u =
     (if u = CHR ''m'' then ''minute''
      else if u = CHR ''h'' then ''hour''
      else if u = CHR ''d'' then ''day''
      else ''week'')"

text \<open>The clock of the examples: the start of 4 November 2026, day 739923 after
  \<^verbatim>\<open>datetime.min\<close>.\<close>

definition example_now :: datetime where
  "example_now = 739923 * microseconds_per_day"

text \<open>A string of 4301 digits, one more than \<^verbatim>\<open>int\<close> reads.\<close>

definition long_digits :: string where
  "long_digits = replicate 4301 (CHR ''1'')"

section \<open>Properties of the text functions\<close>

lemma startswith_iff: "startswith s p \<longleftrightarrow> (\<exists>r. s = p @ r)"
  by (induction s p rule: startswith.induct) auto

lemma contains_iff: "contains s p \<longleftrightarrow> (\<exists>a b. s = a @ p @ b)"
proof (induction s)
  case Nil
  show ?case by auto
next
  case (Cons c s)
  show ?case
  proof
    assume "contains (c # s) p"
    then consider "startswith (c # s) p" | "contains s p" by auto
    then show "\<exists>a b. c # s = a @ p @ b"
    proof cases
      case 1
      then obtain r where "c # s = p @ r" unfolding startswith_iff by blast
      then have "c # s = [] @ p @ r" by simp
      then show ?thesis by blast
    next
      case 2
      then obtain a b where "s = a @ p @ b" using Cons.IH by blast
      then have "c # s = (c # a) @ p @ b" by simp
      then show ?thesis by blast
    qed
  next
    assume "\<exists>a b. c # s = a @ p @ b"
    then obtain a b where ab: "c # s = a @ p @ b" by blast
    show "contains (c # s) p"
    proof (cases a)
      case Nil
      then have "startswith (c # s) p" using ab unfolding startswith_iff by auto
      then show ?thesis by simp
    next
      case (Cons x a')
      then have "s = a' @ p @ b" using ab by simp
      then have "contains s p" using Cons.IH by blast
      then show ?thesis by simp
    qed
  qed
qed

section \<open>Category detection picks the first category of highest score\<close>

lemma py_max_key_first_max:
  "\<exists>pre post. best # xs = pre @ py_max_key best xs # post
      \<and> (\<forall>x\<in>set pre. snd x < snd (py_max_key best xs))
      \<and> (\<forall>x\<in>set post. snd x \<le> snd (py_max_key best xs))"
proof (induction xs arbitrary: best)
  case Nil
  show ?case by (intro exI[of _ "[]"]) simp
next
  case (Cons x xs)
  show ?case
  proof (cases "snd x > snd best")
    case True
    define r where "r = py_max_key x xs"
    from Cons.IH[of x] obtain pre post where d: "x # xs = pre @ r # post"
      and lt: "\<forall>y\<in>set pre. snd y < snd r"
      and le: "\<forall>y\<in>set post. snd y \<le> snd r" unfolding r_def by blast
    have xr: "snd x \<le> snd r"
    proof (cases pre)
      case Nil
      then have "x = r" using d by simp
      then show ?thesis by simp
    next
      case (Cons p ps) then show ?thesis using d lt by auto
    qed
    have res: "py_max_key best (x # xs) = r" using True by (simp add: r_def)
    have "best # x # xs = (best # pre) @ r # post" using d by simp
    moreover have "\<forall>y\<in>set (best # pre). snd y < snd r" using lt xr True by auto
    ultimately show ?thesis unfolding res using le by blast
  next
    case False
    define r where "r = py_max_key best xs"
    from Cons.IH[of best] obtain pre post where d: "best # xs = pre @ r # post"
      and lt: "\<forall>y\<in>set pre. snd y < snd r"
      and le: "\<forall>y\<in>set post. snd y \<le> snd r" unfolding r_def by blast
    have res: "py_max_key best (x # xs) = r" using False by (simp add: r_def)
    show ?thesis
    proof (cases pre)
      case Nil
      then have br: "best = r" and "xs = post" using d by simp_all
      then have "best # x # xs = [] @ r # (x # post)" by simp
      moreover have "\<forall>y\<in>set (x # post). snd y \<le> snd r" using le False br by auto
      ultimately show ?thesis unfolding res by (intro exI[of _ "[]"] exI[of _ "x # post"]) simp
    next
      case (Cons p ps)
      then have pb: "p = best" and "xs = ps @ r # post" using d by simp_all
      then have e: "best # x # xs = (best # x # ps) @ r # post" by simp
      have "snd best < snd r" using lt Cons pb by simp
      then have "\<forall>y\<in>set (best # x # ps). snd y < snd r"
        using lt Cons False pb by auto
      then show ?thesis unfolding res using e le by blast
    qed
  qed
qed

lemma filter_split:
  "filter P xs = pre' @ r # post' \<Longrightarrow>
     \<exists>pre post. xs = pre @ r # post \<and> filter P pre = pre' \<and> filter P post = post'"
proof (induction pre' arbitrary: xs)
  case Nil
  then have "filter P xs = r # post'" by simp
  then obtain us vs where "xs = us @ r # vs" "\<forall>u\<in>set us. \<not> P u" "post' = filter P vs"
    unfolding filter_eq_Cons_iff by blast
  then have "xs = us @ r # vs \<and> filter P us = [] \<and> filter P vs = post'"
    by (simp add: filter_empty_conv)
  then show ?case by blast
next
  case (Cons a pre')
  then have "filter P xs = a # (pre' @ r # post')" by simp
  then obtain us vs where xs: "xs = us @ a # vs" and us: "\<forall>u\<in>set us. \<not> P u" and a: "P a"
    and vs: "pre' @ r # post' = filter P vs"
    unfolding filter_eq_Cons_iff by blast
  from Cons.IH[OF vs[symmetric]] obtain pre post where
    "vs = pre @ r # post" "filter P pre = pre'" "filter P post = post'" by blast
  then have "xs = (us @ a # pre) @ r # post \<and> filter P (us @ a # pre) = a # pre'
      \<and> filter P post = post'"
    using xs us a by (simp add: filter_empty_conv)
  then show ?case by blast
qed

lemma build_scores_filter:
  "build_scores text kw = filter (\<lambda>p. snd p > 0) (map (\<lambda>(c, ks). (c, keyword_score text ks)) kw)"
  by (induction kw) (auto simp: Let_def)

lemma distinct_intents: "distinct (map fst intent_keywords)"
  by (simp add: intent_keywords_def)

lemma score_of_entry:
  assumes "(c, n) \<in> set (map (\<lambda>(c, ks). (c, keyword_score text ks)) intent_keywords)"
  shows "score_of text c = n"
proof -
  from assms obtain ks where ks: "(c, ks) \<in> set intent_keywords" and n: "n = keyword_score text ks"
    by auto
  have "map_of intent_keywords c = Some ks"
    using distinct_intents ks by (rule map_of_is_SomeI)
  then show ?thesis by (simp add: score_of_def n)
qed

lemma keywords_distinct: "(c, ks) \<in> set intent_keywords \<Longrightarrow> distinct ks"
  by (auto simp: intent_keywords_def)

lemma keyword_score_card:
  assumes "distinct ks"
  shows "keyword_score t ks = card {k \<in> set ks. \<exists>a b. t = a @ k @ b}"
proof -
  let ?Q = "\<lambda>k. \<exists>a b. t = a @ k @ b"
  have "distinct (filter ?Q ks)" using assms by simp
  then have "card (set (filter ?Q ks)) = length (filter ?Q ks)" by (rule distinct_card)
  moreover have "set (filter ?Q ks) = {k \<in> set ks. ?Q k}" by auto
  moreover have "keyword_score t ks = length (filter ?Q ks)"
    by (simp add: keyword_score_def contains_iff)
  ultimately show ?thesis by simp
qed

lemma score_of_card:
  assumes "(c, ks) \<in> set intent_keywords"
  shows "score_of t c = card {k \<in> set ks. \<exists>a b. t = a @ k @ b}"
proof -
  have "(c, keyword_score t ks) \<in> set (map (\<lambda>(c, ks). (c, keyword_score t ks)) intent_keywords)"
    using assms by force
  then have "score_of t c = keyword_score t ks" by (rule score_of_entry)
  then show ?thesis using keyword_score_card[OF keywords_distinct[OF assms]] by simp
qed

lemma detect_general:
  assumes "\<forall>c\<in>set precedence. score_of t c = 0"
  shows "detect_intent_type_flexible t = ''general_question''"
proof -
  let ?S = "map (\<lambda>(c, ks). (c, keyword_score t ks)) intent_keywords"
  have "\<forall>x\<in>set ?S. snd x = 0"
  proof
    fix x assume x: "x \<in> set ?S"
    then have "score_of t (fst x) = snd x" using score_of_entry[of "fst x" "snd x" t] by simp
    moreover have "fst x \<in> set precedence" using x by (force simp: precedence_def)
    ultimately show "snd x = 0" using assms by auto
  qed
  then have "build_scores t intent_keywords = []"
    unfolding build_scores_filter by (simp add: filter_empty_conv)
  then show ?thesis by (simp add: detect_intent_type_flexible_def)
qed

lemma detect_first_max:
  assumes "\<not> (\<forall>c\<in>set precedence. score_of t c = 0)"
  shows "\<exists>pre post. precedence = pre @ detect_intent_type_flexible t # post
           \<and> (\<forall>c\<in>set pre. score_of t c < score_of t (detect_intent_type_flexible t))
           \<and> (\<forall>c\<in>set post. score_of t c \<le> score_of t (detect_intent_type_flexible t))"
proof -
  let ?S = "map (\<lambda>(c, ks). (c, keyword_score t ks)) intent_keywords"
  let ?P = "\<lambda>p::string \<times> nat. snd p > 0"
  have fstS: "map fst ?S = precedence" by (simp add: precedence_def comp_def case_prod_unfold)
  from assms obtain c where c: "c \<in> set precedence" "score_of t c \<noteq> 0" by blast
  then obtain ks where "(c, ks) \<in> set intent_keywords" by (auto simp: precedence_def)
  then have "(c, keyword_score t ks) \<in> set ?S" by force
  moreover from this have "score_of t c = keyword_score t ks" by (rule score_of_entry)
  ultimately have "\<exists>x\<in>set ?S. ?P x" using c by force
  then have "filter ?P ?S \<noteq> []" by (simp add: filter_empty_conv)
  then obtain s ss where sss: "build_scores t intent_keywords = s # ss"
    unfolding build_scores_filter by (cases "filter ?P ?S") auto
  define r where "r = py_max_key s ss"
  have det: "detect_intent_type_flexible t = fst r"
    by (simp add: detect_intent_type_flexible_def sss r_def)
  from py_max_key_first_max[of s ss] obtain pre' post' where
    d: "s # ss = pre' @ r # post'" and lt: "\<forall>x\<in>set pre'. snd x < snd r"
    and le: "\<forall>x\<in>set post'. snd x \<le> snd r" unfolding r_def by blast
  have "filter ?P ?S = pre' @ r # post'"
    using d sss build_scores_filter[of t intent_keywords] by simp
  from filter_split[OF this] obtain pre post where
    S: "?S = pre @ r # post" and pre': "filter ?P pre = pre'" and post': "filter ?P post = post'"
    by blast
  have rS: "r \<in> set ?S" unfolding S by simp
  then have "r \<in> set (filter ?P ?S)" using d sss build_scores_filter[of t intent_keywords]
    by (metis in_set_conv_decomp)
  then have Pr: "?P r" by simp
  have score_x: "score_of t (fst x) = snd x" if "x \<in> set ?S" for x
    using that score_of_entry[of "fst x" "snd x" t] by simp
  have before: "snd x < snd r" if "x \<in> set pre" for x
  proof (cases "?P x")
    case True
    then have "x \<in> set pre'" using that pre' by auto
    then show ?thesis using lt by blast
  next
    case False then show ?thesis using Pr by simp
  qed
  have after: "snd x \<le> snd r" if "x \<in> set post" for x
  proof (cases "?P x")
    case True
    then have "x \<in> set post'" using that post' by auto
    then show ?thesis using le by blast
  next
    case False then show ?thesis by simp
  qed
  have "map fst ?S = map fst pre @ fst r # map fst post" by (simp only: S map_append list.map)
  then have prec: "precedence = map fst pre @ fst r # map fst post" using fstS by simp
  have "\<forall>c\<in>set (map fst pre). score_of t c < score_of t (fst r)"
  proof
    fix c assume "c \<in> set (map fst pre)"
    then obtain x where x: "x \<in> set pre" "c = fst x" by auto
    then have "x \<in> set ?S" unfolding S by auto
    then show "score_of t c < score_of t (fst r)" using score_x x before rS by auto
  qed
  moreover have "\<forall>c\<in>set (map fst post). score_of t c \<le> score_of t (fst r)"
  proof
    fix c assume "c \<in> set (map fst post)"
    then obtain x where x: "x \<in> set post" "c = fst x" by auto
    then have "x \<in> set ?S" unfolding S by auto
    then show "score_of t c \<le> score_of t (fst r)" using score_x x after rS by auto
  qed
  ultimately show ?thesis unfolding det using prec by blast
qed

lemma precedence_eq:
  "precedence = [''check_abnormality'', ''list_services'', ''service_details'',
                 ''metrics_analysis'', ''compare_services'', ''troubleshoot'']"
  by (simp add: precedence_def intent_keywords_def)

lemma detect_nonempty: "detect_intent_type_flexible t \<noteq> []"
proof (cases "\<forall>c\<in>set precedence. score_of t c = 0")
  case True
  then show ?thesis by (simp add: detect_general)
next
  case False
  from detect_first_max[OF this] obtain pre post where
    "precedence = pre @ detect_intent_type_flexible t # post" by blast
  then have "detect_intent_type_flexible t \<in> set precedence"
    by (metis in_set_conv_decomp)
  then show ?thesis unfolding precedence_eq by auto
qed

text \<open>
  Claim C5. The pattern tier calls the detection on the lower-cased input. The score
  of a category is the number of its keywords that occur in that text as
  substrings; when every score is zero the category is \<^verbatim>\<open>general_question\<close>;
  otherwise the category returned has the highest score, and every category
  before it in the order \<^verbatim>\<open>check_abnormality\<close>, \<^verbatim>\<open>list_services\<close>,
  \<^verbatim>\<open>service_details\<close>, \<^verbatim>\<open>metrics_analysis\<close>, \<^verbatim>\<open>compare_services\<close>,
  \<^verbatim>\<open>troubleshoot\<close> has a strictly lower score, so ties go to the earlier one.
\<close>

theorem detect_intent_type_first_highest_score:
  "intent_type (parse_with_patterns text) = Some (detect_intent_type_flexible (lower text))
   \<and> precedence = [''check_abnormality'', ''list_services'', ''service_details'',
                    ''metrics_analysis'', ''compare_services'', ''troubleshoot'']
   \<and> (\<forall>(c, ks) \<in> set intent_keywords.
         score_of (lower text) c = card {k \<in> set ks. \<exists>a b. lower text = a @ k @ b})
   \<and> (if \<forall>c\<in>set precedence. score_of (lower text) c = 0
       then detect_intent_type_flexible (lower text) = ''general_question''
       else \<exists>pre post.
              precedence = pre @ detect_intent_type_flexible (lower text) # post
              \<and> (\<forall>c\<in>set pre. score_of (lower text) c
                                  < score_of (lower text) (detect_intent_type_flexible (lower text)))
              \<and> (\<forall>c\<in>set post. score_of (lower text) c
                                  \<le> score_of (lower text) (detect_intent_type_flexible (lower text))))"
proof (intro conjI)
  show "intent_type (parse_with_patterns text) = Some (detect_intent_type_flexible (lower text))"
    by (simp add: parse_with_patterns_def Let_def detect_nonempty)
  show "precedence = [''check_abnormality'', ''list_services'', ''service_details'',
                      ''metrics_analysis'', ''compare_services'', ''troubleshoot'']"
    by (rule precedence_eq)
  show "\<forall>(c, ks) \<in> set intent_keywords.
          score_of (lower text) c = card {k \<in> set ks. \<exists>a b. lower text = a @ k @ b}"
    using score_of_card by blast
  show "if \<forall>c\<in>set precedence. score_of (lower text) c = 0
        then detect_intent_type_flexible (lower text) = ''general_question''
        else \<exists>pre post.
               precedence = pre @ detect_intent_type_flexible (lower text) # post
               \<and> (\<forall>c\<in>set pre. score_of (lower text) c
                                   < score_of (lower text) (detect_intent_type_flexible (lower text)))
               \<and> (\<forall>c\<in>set post. score_of (lower text) c
                                   \<le> score_of (lower text) (detect_intent_type_flexible (lower text)))"
  proof (cases "\<forall>c\<in>set precedence. score_of (lower text) c = 0")
    case True
    show ?thesis unfolding if_P[OF True] by (rule detect_general[OF True])
  next
    case False
    show ?thesis unfolding if_not_P[OF False] by (rule detect_first_max[OF False])
  qed
qed

text \<open>A tie: two keywords of \<^verbatim>\<open>metrics_analysis\<close> and two of \<^verbatim>\<open>compare_services\<close>;
  the earlier category wins.\<close>

theorem detect_intent_type_first_highest_score_witness:
  "detect_intent_type_flexible (lower ''Compare CPU vs memory'') = ''metrics_analysis''
   \<and> score_of (lower ''Compare CPU vs memory'') ''metrics_analysis'' = 2
   \<and> score_of (lower ''Compare CPU vs memory'') ''compare_services'' = 2
   \<and> (\<exists>pre post.
         precedence = pre @ ''metrics_analysis'' # post
         \<and> (\<forall>c\<in>set pre. score_of (lower ''Compare CPU vs memory'') c < 2)
         \<and> (\<forall>c\<in>set post. score_of (lower ''Compare CPU vs memory'') c \<le> 2))"
proof -
  let ?t = "lower ''Compare CPU vs memory''"
  have r: "detect_intent_type_flexible ?t = ''metrics_analysis''" by code_simp
  have m: "score_of ?t ''metrics_analysis'' = 2" by code_simp
  have c: "score_of ?t ''compare_services'' = 2" by code_simp
  have nz: "\<not> (\<forall>c\<in>set precedence. score_of ?t c = 0)"
    using m by (auto simp: precedence_eq)
  note d = detect_intent_type_first_highest_score[of "''Compare CPU vs memory''",
      THEN conjunct2, THEN conjunct2, THEN conjunct2]
  have "\<exists>pre post.
          precedence = pre @ detect_intent_type_flexible ?t # post
          \<and> (\<forall>c\<in>set pre. score_of ?t c < score_of ?t (detect_intent_type_flexible ?t))
          \<and> (\<forall>c\<in>set post. score_of ?t c \<le> score_of ?t (detect_intent_type_flexible ?t))"
    using d unfolding if_not_P[OF nz] .
  then have "\<exists>pre post.
          precedence = pre @ ''metrics_analysis'' # post
          \<and> (\<forall>c\<in>set pre. score_of ?t c < 2)
          \<and> (\<forall>c\<in>set post. score_of ?t c \<le> 2)"
    unfolding r m .
  then show ?thesis using r m c by blast
qed

section \<open>The filters, problem by problem\<close>

lemma filter_problems_by_entity_map:
  "filter_problems_by_entity ps eid sname =
     (map (\<lambda>p. write_relevance (entity_relevance p eid sname) p) ps,
      map (\<lambda>p. write_relevance (entity_relevance p eid sname) p)
          (filter (\<lambda>p. entity_relevance p eid sname \<noteq> None) ps))"
  by (induction ps)
     (auto simp: write_relevance_def entity_relevance_def split: option.splits prod.splits)

lemma filter_problems_by_name_map:
  "filter_problems_by_name ps sname =
     (map (\<lambda>p. write_relevance (name_relevance p (lower sname)) p) ps,
      map (\<lambda>p. write_relevance (name_relevance p (lower sname)) p)
          (filter (\<lambda>p. name_relevance p (lower sname) \<noteq> None) ps))"
  by (induction ps)
     (auto simp: write_relevance_def split: option.splits prod.splits)

lemma write_relevance_frame:
  "write_relevance r p = p\<lparr>relevance := relevance (write_relevance r p)\<rparr>"
  by (cases r) (simp_all add: write_relevance_def)

lemma filtered_zip:
  "map f (filter P ps) = map snd (filter (\<lambda>(p, p'). P p) (zip ps (map f ps)))"
  by (induction ps) auto

lemma categorize_loop_filter:
  "categorize_loop c ps =
     \<lparr>critical = critical c @ filter (\<lambda>p. bucket_of p = Critical) ps,
      important = important c @ filter (\<lambda>p. bucket_of p = Important) ps,
      related = related c @ filter (\<lambda>p. bucket_of p = Related) ps,
      resolved = resolved c @ filter (\<lambda>p. bucket_of p = Resolved) ps\<rparr>"
proof (induction ps arbitrary: c)
  case Nil
  show ?case by simp
next
  case (Cons p ps)
  have rel: "(case relevance p of None \<Rightarrow> ''unknown'' | Some r \<Rightarrow> r) = ''root_cause''
             \<longleftrightarrow> relevance p = Some ''root_cause''"
    "(case relevance p of None \<Rightarrow> ''unknown'' | Some r \<Rightarrow> r) = ''directly_impacted''
             \<longleftrightarrow> relevance p = Some ''directly_impacted''"
    by (cases "relevance p"; simp)+
  consider "bucket_of p = Resolved" | "bucket_of p = Critical" | "bucket_of p = Important"
    | "bucket_of p = Related" by (cases "bucket_of p") auto
  then show ?case
  proof cases
    case 1
    then have "upper (get_str (status p)) = ''RESOLVED''"
      by (auto simp: bucket_of_def split: if_splits)
    then show ?thesis using 1 by (simp add: Cons.IH Let_def)
  next
    case 2
    then have "upper (get_str (status p)) \<noteq> ''RESOLVED''"
      and "relevance p = Some ''root_cause''
           \<or> upper (get_str (severityLevel p)) \<in> {''ERROR'', ''CUSTOM_ALERT''}"
      by (auto simp: bucket_of_def split: if_splits)
    then show ?thesis using 2 rel by (simp add: Cons.IH Let_def)
  next
    case 3
    then have "upper (get_str (status p)) \<noteq> ''RESOLVED''"
      and "\<not> (relevance p = Some ''root_cause''
           \<or> upper (get_str (severityLevel p)) \<in> {''ERROR'', ''CUSTOM_ALERT''})"
      and "relevance p = Some ''directly_impacted''"
      by (auto simp: bucket_of_def split: if_splits)
    then show ?thesis using 3 rel by (simp add: Cons.IH Let_def)
  next
    case 4
    then have "upper (get_str (status p)) \<noteq> ''RESOLVED''"
      and "\<not> (relevance p = Some ''root_cause''
           \<or> upper (get_str (severityLevel p)) \<in> {''ERROR'', ''CUSTOM_ALERT''})"
      and "relevance p \<noteq> Some ''directly_impacted''"
      by (auto simp: bucket_of_def split: if_splits)
    then show ?thesis using 4 rel by (simp add: Cons.IH Let_def)
  qed
qed

lemma categorize_problems_filter:
  "categorize_problems ps =
     \<lparr>critical = filter (\<lambda>p. bucket_of p = Critical) ps,
      important = filter (\<lambda>p. bucket_of p = Important) ps,
      related = filter (\<lambda>p. bucket_of p = Related) ps,
      resolved = filter (\<lambda>p. bucket_of p = Resolved) ps\<rparr>"
  by (simp add: categorize_problems_def categorize_loop_filter)

section \<open>Categories\<close>

lemma bucket_lengths:
  "length (filter (\<lambda>p. bucket_of p = Critical) ps) + length (filter (\<lambda>p. bucket_of p = Important) ps)
   + length (filter (\<lambda>p. bucket_of p = Related) ps) + length (filter (\<lambda>p. bucket_of p = Resolved) ps)
   = length ps"
proof (induction ps)
  case Nil
  show ?case by simp
next
  case (Cons p ps)
  then show ?case by (cases "bucket_of p") simp_all
qed

text \<open>
  Claim C2, as amended. \<^verbatim>\<open>categorize_problems\<close> returns the four lists \<^verbatim>\<open>critical\<close>,
  \<^verbatim>\<open>important\<close>, \<^verbatim>\<open>related\<close> and \<^verbatim>\<open>resolved\<close>. Each list holds, in the order of the
  input, the problems of one bucket, and a problem has one bucket: \<^verbatim>\<open>resolved\<close> when
  its status is RESOLVED, whatever its relevance; else \<^verbatim>\<open>critical\<close> when its relevance
  is \<^verbatim>\<open>root_cause\<close> or its severity is ERROR or CUSTOM_ALERT; else \<^verbatim>\<open>important\<close> when
  its relevance is \<^verbatim>\<open>directly_impacted\<close>; else \<^verbatim>\<open>related\<close>. Status and severity are
  read through \<^verbatim>\<open>upper()\<close>, so they count in any letter case. Together the four
  lists are as long as the input.
\<close>

theorem categorize_problems_partition:
  "categorize_problems ps =
     \<lparr>critical = filter (\<lambda>p. bucket_of p = Critical) ps,
      important = filter (\<lambda>p. bucket_of p = Important) ps,
      related = filter (\<lambda>p. bucket_of p = Related) ps,
      resolved = filter (\<lambda>p. bucket_of p = Resolved) ps\<rparr>
   \<and> (\<forall>p\<in>set ps.
         (p \<in> set (resolved (categorize_problems ps))
            \<longleftrightarrow> upper (get_str (status p)) = ''RESOLVED'')
       \<and> (p \<in> set (critical (categorize_problems ps))
            \<longleftrightarrow> upper (get_str (status p)) \<noteq> ''RESOLVED''
                \<and> (relevance p = Some ''root_cause''
                     \<or> upper (get_str (severityLevel p)) \<in> {''ERROR'', ''CUSTOM_ALERT''}))
       \<and> (p \<in> set (important (categorize_problems ps))
            \<longleftrightarrow> upper (get_str (status p)) \<noteq> ''RESOLVED''
                \<and> \<not> (relevance p = Some ''root_cause''
                        \<or> upper (get_str (severityLevel p)) \<in> {''ERROR'', ''CUSTOM_ALERT''})
                \<and> relevance p = Some ''directly_impacted'')
       \<and> (p \<in> set (related (categorize_problems ps))
            \<longleftrightarrow> upper (get_str (status p)) \<noteq> ''RESOLVED''
                \<and> \<not> (relevance p = Some ''root_cause''
                        \<or> upper (get_str (severityLevel p)) \<in> {''ERROR'', ''CUSTOM_ALERT''})
                \<and> relevance p \<noteq> Some ''directly_impacted''))
   \<and> length (critical (categorize_problems ps)) + length (important (categorize_problems ps))
       + length (related (categorize_problems ps)) + length (resolved (categorize_problems ps))
     = length ps"
proof (intro conjI ballI)
  show "categorize_problems ps =
     \<lparr>critical = filter (\<lambda>p. bucket_of p = Critical) ps,
      important = filter (\<lambda>p. bucket_of p = Important) ps,
      related = filter (\<lambda>p. bucket_of p = Related) ps,
      resolved = filter (\<lambda>p. bucket_of p = Resolved) ps\<rparr>"
    by (rule categorize_problems_filter)
next
  fix p assume "p \<in> set ps"
  then show "p \<in> set (resolved (categorize_problems ps))
            \<longleftrightarrow> upper (get_str (status p)) = ''RESOLVED''"
    by (simp add: categorize_problems_filter bucket_of_def)
next
  fix p assume "p \<in> set ps"
  then show "p \<in> set (critical (categorize_problems ps))
            \<longleftrightarrow> upper (get_str (status p)) \<noteq> ''RESOLVED''
                \<and> (relevance p = Some ''root_cause''
                     \<or> upper (get_str (severityLevel p)) \<in> {''ERROR'', ''CUSTOM_ALERT''})"
    by (simp add: categorize_problems_filter bucket_of_def)
next
  fix p assume "p \<in> set ps"
  then show "p \<in> set (important (categorize_problems ps))
            \<longleftrightarrow> upper (get_str (status p)) \<noteq> ''RESOLVED''
                \<and> \<not> (relevance p = Some ''root_cause''
                        \<or> upper (get_str (severityLevel p)) \<in> {''ERROR'', ''CUSTOM_ALERT''})
                \<and> relevance p = Some ''directly_impacted''"
    by (simp add: categorize_problems_filter bucket_of_def)
next
  fix p assume "p \<in> set ps"
  then show "p \<in> set (related (categorize_problems ps))
            \<longleftrightarrow> upper (get_str (status p)) \<noteq> ''RESOLVED''
                \<and> \<not> (relevance p = Some ''root_cause''
                        \<or> upper (get_str (severityLevel p)) \<in> {''ERROR'', ''CUSTOM_ALERT''})
                \<and> relevance p \<noteq> Some ''directly_impacted''"
    by (simp add: categorize_problems_filter bucket_of_def)
next
  show "length (critical (categorize_problems ps)) + length (important (categorize_problems ps))
       + length (related (categorize_problems ps)) + length (resolved (categorize_problems ps))
     = length ps"
    using bucket_lengths[of ps] by (simp add: categorize_problems_filter)
qed

text \<open>One problem for each bucket; the first is resolved and a root cause at once.\<close>

theorem categorize_problems_partition_witness:
  "categorize_problems
     [problem0\<lparr>status := Some ''RESOLVED'', relevance := Some ''root_cause''\<rparr>,
      problem0\<lparr>severityLevel := Some ''ERROR''\<rparr>,
      problem0\<lparr>relevance := Some ''directly_impacted''\<rparr>,
      problem0]
   = \<lparr>critical = [problem0\<lparr>severityLevel := Some ''ERROR''\<rparr>],
      important = [problem0\<lparr>relevance := Some ''directly_impacted''\<rparr>],
      related = [problem0],
      resolved = [problem0\<lparr>status := Some ''RESOLVED'', relevance := Some ''root_cause''\<rparr>]\<rparr>"
proof -
  let ?ps = "[problem0\<lparr>status := Some ''RESOLVED'', relevance := Some ''root_cause''\<rparr>,
      problem0\<lparr>severityLevel := Some ''ERROR''\<rparr>,
      problem0\<lparr>relevance := Some ''directly_impacted''\<rparr>,
      problem0]"
  have b: "bucket_of (problem0\<lparr>status := Some ''RESOLVED'', relevance := Some ''root_cause''\<rparr>) = Resolved"
    "bucket_of (problem0\<lparr>severityLevel := Some ''ERROR''\<rparr>) = Critical"
    "bucket_of (problem0\<lparr>relevance := Some ''directly_impacted''\<rparr>) = Important"
    "bucket_of problem0 = Related"
    by (simp_all add: bucket_of_def problem0_def get_str_def upper_def upper_char_def
        lower_letters_def upper_letters_def)
  show ?thesis
    using categorize_problems_partition[of ?ps, THEN conjunct1] b by simp
qed

text \<open>The claim as it stands, with severities compared as they are written, fails
  for a severity in lower case: this problem is directly impacted, its severity is
  neither of the strings \<^verbatim>\<open>ERROR\<close> and \<^verbatim>\<open>CUSTOM_ALERT\<close>, and it is filed under
  \<^verbatim>\<open>critical\<close>, not under \<^verbatim>\<open>important\<close>.\<close>

theorem lower_case_severity_is_critical:
  "status (problem0\<lparr>severityLevel := Some ''error'', relevance := Some ''directly_impacted''\<rparr>)
     \<noteq> Some ''RESOLVED''
   \<and> relevance (problem0\<lparr>severityLevel := Some ''error'', relevance := Some ''directly_impacted''\<rparr>)
     = Some ''directly_impacted''
   \<and> severityLevel (problem0\<lparr>severityLevel := Some ''error'', relevance := Some ''directly_impacted''\<rparr>)
     \<notin> {Some ''ERROR'', Some ''CUSTOM_ALERT''}
   \<and> categorize_problems
       [problem0\<lparr>severityLevel := Some ''error'', relevance := Some ''directly_impacted''\<rparr>]
     = \<lparr>critical =
          [problem0\<lparr>severityLevel := Some ''error'', relevance := Some ''directly_impacted''\<rparr>],
        important = [], related = [], resolved = []\<rparr>"
  by (simp add: categorize_problems_filter bucket_of_def problem0_def get_str_def
      upper_def upper_char_def lower_letters_def upper_letters_def)

section \<open>Relevance of a problem accepted for its entity id\<close>

lemma entity_loop_first_id:
  assumes "\<forall>x\<in>set before. entityId x \<noteq> Some eid
              \<and> \<not> contains (lower (get_str (name x))) (lower sname)"
    and "entityId e = Some eid"
  shows "entity_loop p eid sname (before @ e # rest) = Some (calculate_relevance p eid)"
  using assms by (induction before) (simp_all add: Let_def)

lemma bucket_of_root_cause:
  "bucket_of (p\<lparr>relevance := Some ''root_cause''\<rparr>)
     = (if upper (get_str (status p)) = ''RESOLVED'' then Resolved else Critical)"
  by (simp add: bucket_of_def)

text \<open>
  Claim C6, as amended. A problem is accepted for its entity id when the first
  entity of \<^verbatim>\<open>all_entities\<close> that matches at all, by id or by name, matches by id.
  Such a problem is tagged \<^verbatim>\<open>root_cause\<close> when the id of its root-cause entity is
  the target id, else \<^verbatim>\<open>directly_impacted\<close> when an impacted entity has the target
  id, else \<^verbatim>\<open>indirectly_affected\<close>. When it is tagged \<^verbatim>\<open>root_cause\<close>, the categories
  put it into \<^verbatim>\<open>critical\<close>, unless its status is RESOLVED: then it goes to
  \<^verbatim>\<open>resolved\<close>.
\<close>

theorem entity_id_match_relevance:
  assumes "all_entities p = before @ e # rest"
    and "\<forall>x\<in>set before. entityId x \<noteq> Some eid
              \<and> \<not> contains (lower (get_str (name x))) (lower sname)"
    and "entityId e = Some eid"
  shows "(\<exists>r. filter_problems_by_entity [p] eid sname
                 = ([p\<lparr>relevance := Some r\<rparr>], [p\<lparr>relevance := Some r\<rparr>])
              \<and> r = (if (case rootCauseEntity p of None \<Rightarrow> None | Some rc \<Rightarrow> entityId rc) = Some eid
                     then ''root_cause''
                     else if \<exists>x\<in>set (impactedEntities p). entityId x = Some eid
                     then ''directly_impacted''
                     else ''indirectly_affected'')
              \<and> (r = ''root_cause'' \<longrightarrow>
                   categorize_problems [p\<lparr>relevance := Some r\<rparr>]
                     = (if upper (get_str (status p)) = ''RESOLVED''
                        then \<lparr>critical = [], important = [], related = [],
                              resolved = [p\<lparr>relevance := Some r\<rparr>]\<rparr>
                        else \<lparr>critical = [p\<lparr>relevance := Some r\<rparr>], important = [],
                              related = [], resolved = []\<rparr>)))"
proof -
  have loop: "entity_relevance p eid sname = Some (calculate_relevance p eid)"
    unfolding entity_relevance_def assms(1) using assms(2,3) by (rule entity_loop_first_id)
  have f: "filter_problems_by_entity [p] eid sname
             = ([p\<lparr>relevance := Some (calculate_relevance p eid)\<rparr>],
                [p\<lparr>relevance := Some (calculate_relevance p eid)\<rparr>])"
    by (simp add: filter_problems_by_entity_map loop write_relevance_def)
  have r: "calculate_relevance p eid
             = (if (case rootCauseEntity p of None \<Rightarrow> None | Some rc \<Rightarrow> entityId rc) = Some eid
                then ''root_cause''
                else if \<exists>x\<in>set (impactedEntities p). entityId x = Some eid
                then ''directly_impacted''
                else ''indirectly_affected'')"
    by (simp add: calculate_relevance_def list_ex_iff)
  have c: "calculate_relevance p eid = ''root_cause'' \<longrightarrow>
             categorize_problems [p\<lparr>relevance := Some (calculate_relevance p eid)\<rparr>]
               = (if upper (get_str (status p)) = ''RESOLVED''
                  then \<lparr>critical = [], important = [], related = [],
                        resolved = [p\<lparr>relevance := Some (calculate_relevance p eid)\<rparr>]\<rparr>
                  else \<lparr>critical = [p\<lparr>relevance := Some (calculate_relevance p eid)\<rparr>],
                        important = [], related = [], resolved = []\<rparr>)"
    by (simp add: categorize_problems_filter bucket_of_root_cause)
  show ?thesis using f r c by blast
qed

text \<open>The fourth scenario of the specification: the root cause is the target, and
  the problem is open.\<close>

theorem entity_id_match_relevance_witness:
  "filter_problems_by_entity [problem0\<lparr>rootCauseEntity := Some payment_service\<rparr>]
       ''SERVICE-123'' ''payment''
     = ([problem0\<lparr>rootCauseEntity := Some payment_service, relevance := Some ''root_cause''\<rparr>],
        [problem0\<lparr>rootCauseEntity := Some payment_service, relevance := Some ''root_cause''\<rparr>])
   \<and> categorize_problems
       [problem0\<lparr>rootCauseEntity := Some payment_service, relevance := Some ''root_cause''\<rparr>]
     = \<lparr>critical =
          [problem0\<lparr>rootCauseEntity := Some payment_service, relevance := Some ''root_cause''\<rparr>],
        important = [], related = [], resolved = []\<rparr>"
proof -
  let ?p = "problem0\<lparr>rootCauseEntity := Some payment_service\<rparr>"
  have a: "all_entities ?p = [] @ payment_service # []"
    by (simp add: all_entities_def problem0_def)
  have b: "\<forall>x\<in>set []. entityId x \<noteq> Some ''SERVICE-123''
              \<and> \<not> contains (lower (get_str (name x))) (lower ''payment'')" by simp
  have c: "entityId payment_service = Some ''SERVICE-123''" by (simp add: payment_service_def)
  have u: "upper (get_str (status ?p)) \<noteq> ''RESOLVED''"
    by (simp add: problem0_def get_str_def upper_def upper_char_def
        lower_letters_def upper_letters_def)
  have rc: "(case rootCauseEntity ?p of None \<Rightarrow> None | Some rc \<Rightarrow> entityId rc) = Some ''SERVICE-123''"
    by (simp add: payment_service_def)
  from entity_id_match_relevance[OF a b c] u rc show ?thesis by auto
qed

text \<open>The claim as it stands fails for a resolved problem whose root cause is the
  target: it is tagged \<^verbatim>\<open>root_cause\<close> and goes to \<^verbatim>\<open>resolved\<close>, not to \<^verbatim>\<open>critical\<close>.\<close>

theorem root_cause_resolved_not_critical:
  "(case rootCauseEntity (problem0\<lparr>status := Some ''RESOLVED'', rootCauseEntity := Some payment_service\<rparr>)
      of None \<Rightarrow> None | Some rc \<Rightarrow> entityId rc) = Some ''SERVICE-123''
   \<and> snd (filter_problems_by_entity
            [problem0\<lparr>status := Some ''RESOLVED'', rootCauseEntity := Some payment_service\<rparr>]
            ''SERVICE-123'' ''payment'')
     = [problem0\<lparr>status := Some ''RESOLVED'', rootCauseEntity := Some payment_service,
                 relevance := Some ''root_cause''\<rparr>]
   \<and> categorize_problems
       [problem0\<lparr>status := Some ''RESOLVED'', rootCauseEntity := Some payment_service,
                 relevance := Some ''root_cause''\<rparr>]
     = \<lparr>critical = [], important = [], related = [],
        resolved = [problem0\<lparr>status := Some ''RESOLVED'', rootCauseEntity := Some payment_service,
                             relevance := Some ''root_cause''\<rparr>]\<rparr>"
  by (simp add: filter_problems_by_entity_map entity_relevance_def all_entities_def
      write_relevance_def calculate_relevance_def categorize_problems_filter bucket_of_def
      problem0_def payment_service_def get_str_def upper_def upper_char_def
      lower_letters_def upper_letters_def)

section \<open>A name match on an earlier entity hides an id match on a later one\<close>

text \<open>
  Claim C1 fails on the code. The loop of \<^verbatim>\<open>_filter_problems_by_entity\<close> tests the
  id and then the name of one entity before it looks at the next, and it stops at the
  first test that holds. Here the impacted entity \<^verbatim>\<open>Payment-Gateway\<close> has another
  id and a name that contains the service name, and the root-cause entity, which
  comes last in \<^verbatim>\<open>all_entities\<close>, is the target service itself: the problem
  satisfies both matches and is tagged \<^verbatim>\<open>name_match\<close>; the categories then file it
  under \<^verbatim>\<open>related\<close>.
\<close>

theorem name_match_hides_entity_id_match:
  "list_ex (\<lambda>e. entityId e = Some ''SERVICE-123'')
     (all_entities (problem0\<lparr>impactedEntities := [payment_gateway],
                              rootCauseEntity := Some payment_service\<rparr>))
   \<and> list_ex (\<lambda>e. contains (lower (get_str (name e))) (lower ''payment''))
     (all_entities (problem0\<lparr>impactedEntities := [payment_gateway],
                              rootCauseEntity := Some payment_service\<rparr>))
   \<and> calculate_relevance (problem0\<lparr>impactedEntities := [payment_gateway],
                                     rootCauseEntity := Some payment_service\<rparr>) ''SERVICE-123''
     = ''root_cause''
   \<and> snd (filter_problems_by_entity
            [problem0\<lparr>impactedEntities := [payment_gateway],
                      rootCauseEntity := Some payment_service\<rparr>] ''SERVICE-123'' ''payment'')
     = [problem0\<lparr>impactedEntities := [payment_gateway], rootCauseEntity := Some payment_service,
                 relevance := Some ''name_match''\<rparr>]
   \<and> categorize_problems
       [problem0\<lparr>impactedEntities := [payment_gateway], rootCauseEntity := Some payment_service,
                 relevance := Some ''name_match''\<rparr>]
     = \<lparr>critical = [], important = [],
        related = [problem0\<lparr>impactedEntities := [payment_gateway],
                            rootCauseEntity := Some payment_service,
                            relevance := Some ''name_match''\<rparr>],
        resolved = []\<rparr>"
  by (simp add: filter_problems_by_entity_map entity_relevance_def all_entities_def
      write_relevance_def calculate_relevance_def categorize_problems_filter bucket_of_def
      problem0_def payment_service_def payment_gateway_def get_str_def
      upper_def upper_char_def lower_def lower_char_def lower_letters_def upper_letters_def)

section \<open>The filters write the relevance of the problems they accept and nothing else\<close>

lemma frame_of_map:
  fixes rel :: "problem \<Rightarrow> string option"
  defines "ps' \<equiv> \<lambda>ps. map (\<lambda>p. write_relevance (rel p) p) ps"
  shows "length (ps' ps) = length ps
    \<and> (\<forall>i<length ps.
          ps' ps ! i = (ps ! i)\<lparr>relevance := relevance (ps' ps ! i)\<rparr>
          \<and> (rel (ps ! i) \<noteq> None \<longrightarrow> relevance (ps' ps ! i) = rel (ps ! i))
          \<and> (rel (ps ! i) = None \<longrightarrow> ps' ps ! i = ps ! i))"
proof (intro conjI allI impI)
  show "length (ps' ps) = length ps" by (simp add: ps'_def)
next
  fix i assume "i < length ps"
  then show "ps' ps ! i = (ps ! i)\<lparr>relevance := relevance (ps' ps ! i)\<rparr>"
    unfolding ps'_def by (simp add: write_relevance_frame[symmetric])
next
  fix i assume "i < length ps" "rel (ps ! i) \<noteq> None"
  then show "relevance (ps' ps ! i) = rel (ps ! i)"
    unfolding ps'_def by (auto simp: write_relevance_def)
next
  fix i assume "i < length ps" "rel (ps ! i) = None"
  then show "ps' ps ! i = ps ! i"
    unfolding ps'_def by (simp add: write_relevance_def)
qed

text \<open>
  Claim C8. In both modes the call leaves the argument list \<open>ps\<close> in a state \<open>ps'\<close>
  of the same length in which every problem is the problem of the input up to its
  relevance; a problem the filter accepts carries the relevance the filter gives
  it; a problem the filter does not accept is the problem of the input, so it has
  no relevance when it had none; and the list returned holds the accepted problems,
  in their new state and in the order of the input.
\<close>

theorem filters_write_relevance_only:
  "(\<forall>ps' out. filter_problems_by_entity ps eid sname = (ps', out) \<longrightarrow>
       length ps' = length ps
     \<and> (\<forall>i<length ps.
           ps' ! i = (ps ! i)\<lparr>relevance := relevance (ps' ! i)\<rparr>
         \<and> (entity_relevance (ps ! i) eid sname \<noteq> None \<longrightarrow>
               relevance (ps' ! i) = entity_relevance (ps ! i) eid sname)
         \<and> (entity_relevance (ps ! i) eid sname = None \<longrightarrow>
               ps' ! i = ps ! i \<and> (relevance (ps ! i) = None \<longrightarrow> relevance (ps' ! i) = None)))
     \<and> out = map snd (filter (\<lambda>(p, p'). entity_relevance p eid sname \<noteq> None) (zip ps ps')))
   \<and> (\<forall>ps' out. filter_problems_by_name ps sname = (ps', out) \<longrightarrow>
       length ps' = length ps
     \<and> (\<forall>i<length ps.
           ps' ! i = (ps ! i)\<lparr>relevance := relevance (ps' ! i)\<rparr>
         \<and> (name_relevance (ps ! i) (lower sname) \<noteq> None \<longrightarrow>
               relevance (ps' ! i) = name_relevance (ps ! i) (lower sname))
         \<and> (name_relevance (ps ! i) (lower sname) = None \<longrightarrow>
               ps' ! i = ps ! i \<and> (relevance (ps ! i) = None \<longrightarrow> relevance (ps' ! i) = None)))
     \<and> out = map snd (filter (\<lambda>(p, p'). name_relevance p (lower sname) \<noteq> None) (zip ps ps')))"
proof (intro conjI allI impI)
  fix ps' out assume "filter_problems_by_entity ps eid sname = (ps', out)"
  then have ps': "ps' = map (\<lambda>p. write_relevance (entity_relevance p eid sname) p) ps"
    and out: "out = map (\<lambda>p. write_relevance (entity_relevance p eid sname) p)
                      (filter (\<lambda>p. entity_relevance p eid sname \<noteq> None) ps)"
    by (simp_all add: filter_problems_by_entity_map)
  note fr = frame_of_map[of "\<lambda>p. entity_relevance p eid sname" ps, folded ps']
  show "length ps' = length ps" using fr by blast
  show "out = map snd (filter (\<lambda>(p, p'). entity_relevance p eid sname \<noteq> None) (zip ps ps'))"
    unfolding out ps' by (rule filtered_zip)
  fix i assume i: "i < length ps"
  show "ps' ! i = (ps ! i)\<lparr>relevance := relevance (ps' ! i)\<rparr>" using fr i by blast
  { assume "entity_relevance (ps ! i) eid sname \<noteq> None"
    then show "relevance (ps' ! i) = entity_relevance (ps ! i) eid sname" using fr i by blast }
  { assume "entity_relevance (ps ! i) eid sname = None"
    then show e: "ps' ! i = ps ! i" using fr i by blast
    assume "relevance (ps ! i) = None"
    then show "relevance (ps' ! i) = None" using e by simp }
next
  fix ps' out assume "filter_problems_by_name ps sname = (ps', out)"
  then have ps': "ps' = map (\<lambda>p. write_relevance (name_relevance p (lower sname)) p) ps"
    and out: "out = map (\<lambda>p. write_relevance (name_relevance p (lower sname)) p)
                      (filter (\<lambda>p. name_relevance p (lower sname) \<noteq> None) ps)"
    by (simp_all add: filter_problems_by_name_map)
  note fr = frame_of_map[of "\<lambda>p. name_relevance p (lower sname)" ps, folded ps']
  show "length ps' = length ps" using fr by blast
  show "out = map snd (filter (\<lambda>(p, p'). name_relevance p (lower sname) \<noteq> None) (zip ps ps'))"
    unfolding out ps' by (rule filtered_zip)
  fix i assume i: "i < length ps"
  show "ps' ! i = (ps ! i)\<lparr>relevance := relevance (ps' ! i)\<rparr>" using fr i by blast
  { assume "name_relevance (ps ! i) (lower sname) \<noteq> None"
    then show "relevance (ps' ! i) = name_relevance (ps ! i) (lower sname)" using fr i by blast }
  { assume "name_relevance (ps ! i) (lower sname) = None"
    then show e: "ps' ! i = ps ! i" using fr i by blast
    assume "relevance (ps ! i) = None"
    then show "relevance (ps' ! i) = None" using e by simp }
qed

text \<open>Two problems, of which each mode accepts the first only: its impacted entity
  has the id and the name of the service.\<close>

theorem filters_write_relevance_only_witness:
  "filter_problems_by_entity
       [problem0\<lparr>impactedEntities := [payment_service]\<rparr>, problem0] ''SERVICE-123'' ''payment''
     = ([problem0\<lparr>impactedEntities := [payment_service], relevance := Some ''directly_impacted''\<rparr>,
         problem0],
        [problem0\<lparr>impactedEntities := [payment_service], relevance := Some ''directly_impacted''\<rparr>])
   \<and> filter_problems_by_name
       [problem0\<lparr>impactedEntities := [payment_service]\<rparr>, problem0] ''payment''
     = ([problem0\<lparr>impactedEntities := [payment_service], relevance := Some ''entity_match''\<rparr>,
         problem0],
        [problem0\<lparr>impactedEntities := [payment_service], relevance := Some ''entity_match''\<rparr>])"
proof -
  have e: "filter_problems_by_entity
       [problem0\<lparr>impactedEntities := [payment_service]\<rparr>, problem0] ''SERVICE-123'' ''payment''
     = ([problem0\<lparr>impactedEntities := [payment_service], relevance := Some ''directly_impacted''\<rparr>,
         problem0],
        [problem0\<lparr>impactedEntities := [payment_service], relevance := Some ''directly_impacted''\<rparr>])"
    by (simp add: all_entities_def calculate_relevance_def problem0_def payment_service_def)
  have n: "filter_problems_by_name
       [problem0\<lparr>impactedEntities := [payment_service]\<rparr>, problem0] ''payment''
     = ([problem0\<lparr>impactedEntities := [payment_service], relevance := Some ''entity_match''\<rparr>,
         problem0],
        [problem0\<lparr>impactedEntities := [payment_service], relevance := Some ''entity_match''\<rparr>])"
    by (simp add: name_relevance_def problem0_def payment_service_def get_str_def
        lower_def lower_char_def lower_letters_def upper_letters_def)
  show ?thesis
    using filters_write_relevance_only[of
        "[problem0\<lparr>impactedEntities := [payment_service]\<rparr>, problem0]" "''SERVICE-123''" "''payment''"]
      e n by simp
qed

section \<open>Conversation context\<close>

text \<open>
  Claim C4, as amended. \<^verbatim>\<open>apply_context\<close> takes the service of the context, and
  marks the intent as a follow-up, when the intent has no service name, the
  context has a last service and the two categories are equal. It takes the
  timeframe of the context when the intent's timeframe is absent or \<^verbatim>\<open>2h\<close> and the
  context has a last timeframe. It changes nothing else. "Has" is Python's truth
  value: present and not empty.
\<close>

theorem apply_context_fields:
  "apply_context context intent =
     intent\<lparr>service_name :=
              (if \<not> truthy (service_name intent) \<and> truthy (last_service context)
                  \<and> intent_type intent = last_intent context
               then last_service context else service_name intent),
            is_followup :=
              (if \<not> truthy (service_name intent) \<and> truthy (last_service context)
                  \<and> intent_type intent = last_intent context
               then True else is_followup intent),
            timeframe :=
              (if (\<not> truthy (timeframe intent) \<or> timeframe intent = Some ''2h'')
                  \<and> truthy (last_timeframe context)
               then last_timeframe context else timeframe intent)\<rparr>
   \<and> intent_type (apply_context context intent) = intent_type intent
   \<and> additional_context (apply_context context intent) = additional_context intent
   \<and> raw_query (apply_context context intent) = raw_query intent
   \<and> apply_context
        \<lparr>last_service = Some ''payment-api'', last_intent = Some ''check_abnormality'',
         last_timeframe = Some ''30m''\<rparr>
        \<lparr>intent_type = Some ''check_abnormality'', service_name = None, timeframe = Some ''2h'',
         additional_context = Some [], raw_query = ''how is it now?'', is_followup = False\<rparr>
     = \<lparr>intent_type = Some ''check_abnormality'', service_name = Some ''payment-api'',
        timeframe = Some ''30m'', additional_context = Some [], raw_query = ''how is it now?'',
        is_followup = True\<rparr>"
  by (simp add: apply_context_def truthy_def Let_def)

text \<open>A question about metrics after a health check of \<^verbatim>\<open>payment-api\<close>: another
  category, so the service is not carried over; the timeframe is.\<close>

theorem apply_context_fields_witness:
  "apply_context
     \<lparr>last_service = Some ''payment-api'', last_intent = Some ''check_abnormality'',
      last_timeframe = Some ''30m''\<rparr>
     \<lparr>intent_type = Some ''metrics_analysis'', service_name = None, timeframe = Some ''2h'',
      additional_context = Some [], raw_query = ''latency?'', is_followup = False\<rparr>
   = \<lparr>intent_type = Some ''metrics_analysis'', service_name = None, timeframe = Some ''30m'',
      additional_context = Some [], raw_query = ''latency?'', is_followup = False\<rparr>"
  using apply_context_fields[of
      "\<lparr>last_service = Some ''payment-api'', last_intent = Some ''check_abnormality'',
        last_timeframe = Some ''30m''\<rparr>"
      "\<lparr>intent_type = Some ''metrics_analysis'', service_name = None, timeframe = Some ''2h'',
        additional_context = Some [], raw_query = ''latency?'', is_followup = False\<rparr>",
      THEN conjunct1]
  by (simp add: truthy_def)

text \<open>The claim as it stands fails in the context a session has after a first
  question that names no service: the second question has the same category, and
  it is not marked as a follow-up.\<close>

theorem no_last_service_no_followup:
  "service_name (parse_with_patterns ''list'') = None
   \<and> intent_type (parse_with_patterns ''list'')
       = last_intent (update_context initial_context (parse_with_patterns ''list''))
   \<and> last_service (update_context initial_context (parse_with_patterns ''list'')) = None
   \<and> \<not> is_followup (apply_context (update_context initial_context (parse_with_patterns ''list''))
                                     (parse_with_patterns ''list''))"
proof -
  have p: "parse_with_patterns ''list''
        = \<lparr>intent_type = Some ''list_services'', service_name = None, timeframe = Some ''2h'',
           additional_context = Some [], raw_query = ''list'', is_followup = False\<rparr>"
    by code_simp
  show ?thesis unfolding p
    by (simp add: update_context_def initial_context_def apply_context_def truthy_def Let_def)
qed

section \<open>The parser's entry point\<close>

lemma strip_Nil_iff: "strip s = [] \<longleftrightarrow> (\<forall>c\<in>set s. is_space c)"
proof
  assume "strip s = []"
  then have "\<forall>c\<in>set (dropWhile is_space s). is_space c"
    by (simp add: strip_def dropWhile_eq_Nil_conv)
  then have "dropWhile is_space s = []"
    using hd_dropWhile[of is_space s] hd_in_set[of "dropWhile is_space s"] by blast
  then show "\<forall>c\<in>set s. is_space c" by (simp add: dropWhile_eq_Nil_conv)
next
  assume "\<forall>c\<in>set s. is_space c"
  then have d: "dropWhile is_space s = []" by (simp add: dropWhile_eq_Nil_conv)
  show "strip s = []" unfolding strip_def d by simp
qed

lemma parse_None_iff: "parse client json_loads user_input = None \<longleftrightarrow> (\<forall>c\<in>set user_input. is_space c)"
proof (cases "\<forall>c\<in>set user_input. is_space c")
  case True
  then have "strip user_input = []" by (simp add: strip_Nil_iff)
  then show ?thesis using True by (simp add: parse_def)
next
  case False
  then have "strip user_input \<noteq> []" "user_input \<noteq> []" by (auto simp: strip_Nil_iff)
  then show ?thesis using False
    by (simp add: parse_def Let_def split: option.splits)
qed

text \<open>
  Claim C3, as amended. \<^verbatim>\<open>parse\<close> gives \<^verbatim>\<open>None\<close> exactly for an input that is empty
  or all whitespace. For every other input it gives an intent, and no exception of
  the backend tier reaches the caller: when the call to the provider fails (a
  timeout, a provider of unknown name), when the reply is no JSON, or when it is
  JSON but no object, the result is the intent of the pattern tier for the stripped
  input. A JSON object that lacks a key is not a failure: the field takes its
  default, and the intent of the backend tier is the result.
\<close>

theorem parse_total_and_backend_absorbed:
  "(parse client json_loads user_input = None \<longleftrightarrow> (\<forall>c\<in>set user_input. is_space c))
   \<and> ((\<exists>c\<in>set user_input. \<not> is_space c) \<longrightarrow>
        (client = None \<longrightarrow>
           parse client json_loads user_input = Some (parse_with_patterns (strip user_input)))
      \<and> (\<forall>c. client = Some c \<longrightarrow>
           (\<forall>e. parse_with_ai_try c json_loads (strip user_input) = Inl e \<longrightarrow>
                parse client json_loads user_input = Some (parse_with_patterns (strip user_input)))
         \<and> (provider c \<notin> {''openai'', ''anthropic'', ''gemini'', ''ollama''} \<longrightarrow>
                parse client json_loads user_input = Some (parse_with_patterns (strip user_input)))
         \<and> (\<forall>e. complete c (''User query: '' @ strip user_input) = Inl e \<longrightarrow>
                parse client json_loads user_input = Some (parse_with_patterns (strip user_input)))
         \<and> (\<forall>response.
               provider c \<in> {''openai'', ''anthropic'', ''gemini'', ''ollama''} \<longrightarrow>
               complete c (''User query: '' @ strip user_input) = Inr response \<longrightarrow>
                 ((\<forall>e. json_loads (clean_response response) = Inl e \<longrightarrow>
                      parse client json_loads user_input
                        = Some (parse_with_patterns (strip user_input)))
                \<and> (json_loads (clean_response response) = Inr JOther \<longrightarrow>
                      parse client json_loads user_input
                        = Some (parse_with_patterns (strip user_input)))
                \<and> (\<forall>d. json_loads (clean_response response) = Inr (JObject d) \<longrightarrow>
                      parse client json_loads user_input
                        = Some \<lparr>intent_type =
                                  (case d ''intent_type'' of None \<Rightarrow> Some ''general_question''
                                   | Some v \<Rightarrow> v),
                                service_name = (case d ''service_name'' of None \<Rightarrow> None | Some v \<Rightarrow> v),
                                timeframe = (case d ''timeframe'' of None \<Rightarrow> Some ''2h'' | Some v \<Rightarrow> v),
                                additional_context =
                                  (case d ''additional_context'' of None \<Rightarrow> Some [] | Some v \<Rightarrow> v),
                                raw_query = strip user_input,
                                is_followup = False\<rparr>)))))"
proof (intro conjI impI allI)
  show "parse client json_loads user_input = None \<longleftrightarrow> (\<forall>c\<in>set user_input. is_space c)"
    by (rule parse_None_iff)
next
  assume nb: "\<exists>c\<in>set user_input. \<not> is_space c"
  then have ne: "strip user_input \<noteq> []" "user_input \<noteq> []" by (auto simp: strip_Nil_iff)
  { assume "client = None"
    then show "parse client json_loads user_input = Some (parse_with_patterns (strip user_input))"
      using ne by (simp add: parse_def Let_def) }
  fix c assume c: "client = Some c"
  { fix e assume "parse_with_ai_try c json_loads (strip user_input) = Inl e"
    then show "parse client json_loads user_input = Some (parse_with_patterns (strip user_input))"
      using ne c by (simp add: parse_def parse_with_ai_def Let_def) }
  { assume "provider c \<notin> {''openai'', ''anthropic'', ''gemini'', ''ollama''}"
    then show "parse client json_loads user_input = Some (parse_with_patterns (strip user_input))"
      using ne c by (simp add: parse_def parse_with_ai_def parse_with_ai_try_def call_ai_def Let_def) }
  { fix e assume "complete c (''User query: '' @ strip user_input) = Inl e"
    then show "parse client json_loads user_input = Some (parse_with_patterns (strip user_input))"
      using ne c by (simp add: parse_def parse_with_ai_def parse_with_ai_try_def call_ai_def Let_def) }
  fix response
  assume p: "provider c \<in> {''openai'', ''anthropic'', ''gemini'', ''ollama''}"
    and r: "complete c (''User query: '' @ strip user_input) = Inr response"
  have call: "call_ai c (''User query: '' @ strip user_input) = Inr response"
    using p r by (simp add: call_ai_def)
  { fix e assume "json_loads (clean_response response) = Inl e"
    then show "parse client json_loads user_input = Some (parse_with_patterns (strip user_input))"
      using ne c call by (simp add: parse_def parse_with_ai_def parse_with_ai_try_def Let_def) }
  { assume "json_loads (clean_response response) = Inr JOther"
    then show "parse client json_loads user_input = Some (parse_with_patterns (strip user_input))"
      using ne c call by (simp add: parse_def parse_with_ai_def parse_with_ai_try_def Let_def) }
  { fix d assume "json_loads (clean_response response) = Inr (JObject d)"
    then show "parse client json_loads user_input
                 = Some \<lparr>intent_type =
                           (case d ''intent_type'' of None \<Rightarrow> Some ''general_question''
                            | Some v \<Rightarrow> v),
                         service_name = (case d ''service_name'' of None \<Rightarrow> None | Some v \<Rightarrow> v),
                         timeframe = (case d ''timeframe'' of None \<Rightarrow> Some ''2h'' | Some v \<Rightarrow> v),
                         additional_context =
                           (case d ''additional_context'' of None \<Rightarrow> Some [] | Some v \<Rightarrow> v),
                         raw_query = strip user_input,
                         is_followup = False\<rparr>"
      using ne c call
      by (simp add: parse_def parse_with_ai_def parse_with_ai_try_def get_default_def Let_def) }
qed

lemma parse_with_patterns_check_ordercontroller:
  "parse_with_patterns ''check ordercontroller''
     = \<lparr>intent_type = Some ''check_abnormality'', service_name = Some ''ordercontroller'',
        timeframe = Some ''2h'', additional_context = Some [],
        raw_query = ''check ordercontroller'', is_followup = False\<rparr>"
  by code_simp

lemma strip_check_ordercontroller: "strip ''  check ordercontroller '' = ''check ordercontroller''"
  by code_simp

text \<open>The backend times out: the second scenario of the specification comes out of
  the pattern tier. Blank inputs give nothing.\<close>

theorem parse_total_and_backend_absorbed_witness:
  "parse (Some timeout_client) json_loads_example ''  check ordercontroller ''
     = Some \<lparr>intent_type = Some ''check_abnormality'', service_name = Some ''ordercontroller'',
             timeframe = Some ''2h'', additional_context = Some [],
             raw_query = ''check ordercontroller'', is_followup = False\<rparr>
   \<and> parse (Some timeout_client) json_loads_example ''   '' = None
   \<and> parse (Some timeout_client) json_loads_example [] = None"
proof -
  note t = parse_total_and_backend_absorbed[of "Some timeout_client" json_loads_example]
  have nb: "\<exists>c\<in>set ''  check ordercontroller ''. \<not> is_space c"
    by (simp add: is_space_def)
  have f: "complete timeout_client (''User query: '' @ strip ''  check ordercontroller '')
             = Inl BackendError"
    by (simp add: timeout_client_def)
  have "parse (Some timeout_client) json_loads_example ''  check ordercontroller ''
          = Some (parse_with_patterns (strip ''  check ordercontroller ''))"
    using t[of "''  check ordercontroller ''"] nb f by blast
  moreover have "parse (Some timeout_client) json_loads_example ''   '' = None"
    using t[of "''   ''"] by (simp add: is_space_def)
  moreover have "parse (Some timeout_client) json_loads_example [] = None"
    using t[of "[]"] by simp
  ultimately show ?thesis
    by (simp add: strip_check_ordercontroller parse_with_patterns_check_ordercontroller)
qed

text \<open>The claim as it stands fails for a reply that is a JSON object without the
  keys of the contract: nothing falls through, and the intent returned is not the
  one the pattern tier gives for the same input.\<close>

theorem missing_key_does_not_fall_through:
  "parse (Some empty_object_client) json_loads_example ''check ordercontroller''
     = Some \<lparr>intent_type = Some ''general_question'', service_name = None,
             timeframe = Some ''2h'', additional_context = Some [],
             raw_query = ''check ordercontroller'', is_followup = False\<rparr>
   \<and> parse_with_patterns ''check ordercontroller''
     = \<lparr>intent_type = Some ''check_abnormality'', service_name = Some ''ordercontroller'',
        timeframe = Some ''2h'', additional_context = Some [],
        raw_query = ''check ordercontroller'', is_followup = False\<rparr>
   \<and> parse (Some empty_object_client) json_loads_example ''check ordercontroller''
     \<noteq> Some (parse_with_patterns ''check ordercontroller'')"
proof -
  have s: "strip ''check ordercontroller'' = ''check ordercontroller''" by code_simp
  have c: "clean_response ''{}'' = ''{}''" by code_simp
  have "strip ''{}'' = ''{}''" by code_simp
  then have j: "json_loads_example ''{}'' = Inr (JObject Map.empty)"
    by (simp add: json_loads_example_def)
  have "parse (Some empty_object_client) json_loads_example ''check ordercontroller''
     = Some \<lparr>intent_type = Some ''general_question'', service_name = None,
             timeframe = Some ''2h'', additional_context = Some [],
             raw_query = ''check ordercontroller'', is_followup = False\<rparr>"
    by (simp add: parse_def s Let_def parse_with_ai_def parse_with_ai_try_def call_ai_def
        empty_object_client_def c j get_default_def)
  then show ?thesis
    by (simp add: parse_with_patterns_check_ordercontroller)
qed

section \<open>Soundness of the matcher\<close>

lemma take_takeWhile_all:
  assumes "j \<le> length (takeWhile P s)"
  shows "list_all P (take j s)"
proof -
  have "take j s = take j (takeWhile P s @ dropWhile P s)" by simp
  also have "\<dots> = take j (takeWhile P s)" using assms by (simp del: takeWhile_dropWhile_id)
  finally have "set (take j s) \<subseteq> set (takeWhile P s)" by (simp add: set_take_subset)
  then show ?thesis by (auto simp: list_all_iff dest: set_takeWhileD)
qed

lemma ms_sound:
  "(p', s', g') \<in> set (ms r (p, s, g)) \<Longrightarrow> \<exists>m. s = m @ s' \<and> captures r m g g'"
proof (induction r arbitrary: p s g p' s' g')
  case (Cls P)
  then show ?case by (auto split: list.splits if_splits)
next
  case (Lit l)
  then show ?case by (auto simp: startswith_iff split: if_splits)
next
  case (Many P n)
  then obtain j where j: "n \<le> j" "j \<le> length (takeWhile P s)" and s': "s' = drop j s" and g': "g' = g"
    by auto
  have "j \<le> length s" using j(2) length_takeWhile_le[of P s] by linarith
  then have "length (take j s) = j" by simp
  moreover have "list_all P (take j s)" using j(2) by (rule take_takeWhile_all)
  moreover have "s = take j s @ s'" by (simp add: s')
  ultimately have "s = take j s @ s' \<and> captures (Many P n) (take j s) g g'"
    using j(1) g' by simp
  then show ?case by blast
next
  case (Opt r)
  from Opt.prems consider "(p', s', g') \<in> set (ms r (p, s, g))" | "s' = s" "g' = g" by auto
  then show ?case
  proof cases
    case 1
    from Opt.IH[OF 1] show ?thesis by auto
  next
    case 2
    then show ?thesis by simp
  qed
next
  case (Seq r1 r2)
  from Seq.prems obtain p1 s1 g1 where 1: "(p1, s1, g1) \<in> set (ms r1 (p, s, g))"
    and 2: "(p', s', g') \<in> set (ms r2 (p1, s1, g1))" by auto
  from Seq.IH(1)[OF 1] obtain m1 where m1: "s = m1 @ s1" "captures r1 m1 g g1" by blast
  from Seq.IH(2)[OF 2] obtain m2 where m2: "s1 = m2 @ s'" "captures r2 m2 g1 g'" by blast
  have "s = (m1 @ m2) @ s' \<and> captures (Seq r1 r2) (m1 @ m2) g g'"
    using m1 m2 by auto
  then show ?case by blast
next
  case (Alt r1 r2)
  from Alt.prems consider "(p', s', g') \<in> set (ms r1 (p, s, g))"
    | "(p', s', g') \<in> set (ms r2 (p, s, g))" by auto
  then show ?case
  proof cases
    case 1
    from Alt.IH(1)[OF 1] show ?thesis by auto
  next
    case 2
    from Alt.IH(2)[OF 2] show ?thesis by auto
  qed
next
  case (Grp n r)
  from Grp.prems obtain g1 where 1: "(p', s', g1) \<in> set (ms r (p, s, g))"
    and g': "g' = g1(n \<mapsto> take (length s - length s') s)" by auto
  from Grp.IH[OF 1] obtain m where m: "s = m @ s'" "captures r m g g1" by blast
  then have "take (length s - length s') s = m" by simp
  then have "g' = g1(n \<mapsto> m)" using g' by simp
  then have "s = m @ s' \<and> captures (Grp n r) m g g'"
    using m unfolding captures.simps by blast
  then show ?case by blast
next
  case WordB
  then show ?case by (auto split: if_splits)
next
  case Bol
  then show ?case by (auto split: if_splits)
next
  case Eol
  then show ?case by (auto split: if_splits)
qed

lemma search_from_sound:
  "search_from r p s = Some g \<Longrightarrow> \<exists>m. captures r m Map.empty g"
proof (induction r p s rule: search_from.induct)
  case (1 r p s)
  show ?case
  proof (cases "ms r (p, s, Map.empty)")
    case Nil
    then obtain c t where s: "s = c # t" and "search_from r (Some c) t = Some g"
      using "1.prems" by (subst (asm) search_from.simps) (auto split: list.splits)
    then show ?thesis using "1.IH"[OF Nil s] by blast
  next
    case (Cons st sts)
    obtain p' s' g' where st: "st = (p', s', g')" by (cases st) auto
    then have "g' = g" using "1.prems" Cons by (subst (asm) search_from.simps) simp
    moreover have "(p', s', g') \<in> set (ms r (p, s, Map.empty))" using Cons st by simp
    ultimately show ?thesis using ms_sound by blast
  qed
qed

lemma re_search_sound: "re_search r text = Some g \<Longrightarrow> \<exists>m. captures r m Map.empty g"
  unfolding re_search_def by (rule search_from_sound)

section \<open>The timeframe the pattern tier extracts\<close>

lemma canonical_timeframe_iff:
  "canonical_timeframe s \<longleftrightarrow> (\<exists>ds u. s = ds @ [u] \<and> ds \<noteq> [] \<and> list_all is_digit ds \<and> is_unit u)"
proof
  assume c: "canonical_timeframe s"
  then have "s = butlast s @ [last s]" by (simp add: canonical_timeframe_def)
  then show "\<exists>ds u. s = ds @ [u] \<and> ds \<noteq> [] \<and> list_all is_digit ds \<and> is_unit u"
    using c unfolding canonical_timeframe_def by blast
next
  assume "\<exists>ds u. s = ds @ [u] \<and> ds \<noteq> [] \<and> list_all is_digit ds \<and> is_unit u"
  then show "canonical_timeframe s" by (auto simp: canonical_timeframe_def)
qed

lemma captures_explicit:
  assumes "captures timeframe_rx_explicit m g0 g"
  shows "\<exists>ds u. g 1 = Some ds \<and> g 2 = Some [u] \<and> ds \<noteq> [] \<and> list_all is_digit ds \<and> is_unit u"
  using assms unfolding timeframe_rx_explicit_def by auto

lemma captures_unit_words:
  "captures unit_words m g g' \<Longrightarrow> g' = g \<and> m \<in> {''minute'', ''hour'', ''day'', ''week''}"
  unfolding unit_words_def by auto

lemma captures_last:
  assumes "captures timeframe_rx_last m g0 g"
  shows "\<exists>ds w. g 1 = Some ds \<and> g 2 = Some w \<and> ds \<noteq> [] \<and> list_all is_digit ds
           \<and> w \<in> {''minute'', ''hour'', ''day'', ''week''}"
  using assms unfolding timeframe_rx_last_def
  by (auto dest!: captures_unit_words)

lemma captures_in_the_last:
  assumes "captures timeframe_rx_in_the_last m g0 g"
  shows "\<exists>ds w. g 1 = Some ds \<and> g 2 = Some w \<and> ds \<noteq> [] \<and> list_all is_digit ds
           \<and> w \<in> {''minute'', ''hour'', ''day'', ''week''}"
  using assms unfolding timeframe_rx_in_the_last_def
  by (auto dest!: captures_unit_words)

lemma first_letter_unit:
  "w \<in> {''minute'', ''hour'', ''day'', ''week''} \<Longrightarrow> \<exists>u. first_letter w = [u] \<and> is_unit u"
  by (auto simp: first_letter_def is_unit_def)

lemma keyword_timeframe_canonical: "canonical_timeframe (keyword_timeframe time_keywords text)"
  by (simp add: time_keywords_def canonical_timeframe_def is_digit_def is_unit_def digit_chars_def)

lemma extract_timeframe_canonical: "canonical_timeframe (extract_timeframe_flexible text)"
proof (cases "re_search timeframe_rx_explicit text")
  case (Some g)
  from re_search_sound[OF Some] captures_explicit obtain ds u where
    "g 1 = Some ds" "g 2 = Some [u]" "ds \<noteq> []" "list_all is_digit ds" "is_unit u" by blast
  then have "extract_timeframe_flexible text = ds @ [u]" "ds \<noteq> []" "list_all is_digit ds" "is_unit u"
    using Some by (simp_all add: extract_timeframe_flexible_def group_def)
  then show ?thesis unfolding canonical_timeframe_iff by blast
next
  case None
  note n1 = None
  show ?thesis
  proof (cases "re_search timeframe_rx_last text")
    case (Some g)
    from re_search_sound[OF Some] captures_last obtain ds w where
      g: "g 1 = Some ds" "g 2 = Some w" "ds \<noteq> []" "list_all is_digit ds"
        "w \<in> {''minute'', ''hour'', ''day'', ''week''}" by blast
    from first_letter_unit[OF g(5)] obtain u where u: "first_letter w = [u]" "is_unit u" by blast
    have "extract_timeframe_flexible text = ds @ [u]"
      using n1 Some g u by (simp add: extract_timeframe_flexible_def group_def)
    then show ?thesis unfolding canonical_timeframe_iff using g u by blast
  next
    case None
    note n2 = None
    show ?thesis
    proof (cases "re_search timeframe_rx_in_the_last text")
      case (Some g)
      from re_search_sound[OF Some] captures_in_the_last obtain ds w where
        g: "g 1 = Some ds" "g 2 = Some w" "ds \<noteq> []" "list_all is_digit ds"
          "w \<in> {''minute'', ''hour'', ''day'', ''week''}" by blast
      from first_letter_unit[OF g(5)] obtain u where u: "first_letter w = [u]" "is_unit u" by blast
      have "extract_timeframe_flexible text = ds @ [u]"
        using n1 n2 Some g u by (simp add: extract_timeframe_flexible_def group_def)
      then show ?thesis unfolding canonical_timeframe_iff using g u by blast
    next
      case None
      then have "extract_timeframe_flexible text = keyword_timeframe time_keywords text"
        using n1 n2 by (simp add: extract_timeframe_flexible_def)
      then show ?thesis by (simp add: keyword_timeframe_canonical)
    qed
  qed
qed

section \<open>Matching a timeframe\<close>

lemma digit_not_unit: "is_digit c \<Longrightarrow> \<not> is_unit c"
  by (auto simp: is_digit_def is_unit_def digit_chars_def)

lemma concat_greedy_last:
  assumes "\<forall>j. m \<le> j \<and> j < k \<longrightarrow> f j = []"
  shows "concat (map f (rev [m ..< Suc k])) = (if m \<le> k then f k else [])"
proof (cases "m \<le> k")
  case True
  then have "[m ..< Suc k] = [m ..< k] @ [k]" by simp
  then have "concat (map f (rev [m ..< Suc k])) = f k @ concat (map f (rev [m ..< k]))" by simp
  moreover have "concat (map f (rev [m ..< k])) = []" using assms by simp
  ultimately show ?thesis using True by simp
next
  case False
  then show ?thesis by simp
qed

lemma ms_group_many:
  "ms (Grp n (Many P m)) (p, s, g) =
     map (\<lambda>j. (prev_after p s j, drop j s, g(n \<mapsto> take j s)))
         (rev [m ..< Suc (length (takeWhile P s))])"
proof -
  have "j \<le> length s" if "j \<in> set (rev [m ..< Suc (length (takeWhile P s))])" for j
    using that length_takeWhile_le[of P s] by (simp) linarith
  then show ?thesis by (simp add: comp_def cong: map_cong)
qed

lemma ms_unit_eol:
  "ms (Seq (Grp 2 (Cls is_unit)) Eol) (p, s, g) =
     (case s of [] \<Rightarrow> []
      | c # r \<Rightarrow> if is_unit c \<and> (r = [] \<or> r = [CHR 0x0A]) then [(Some c, r, g(2 \<mapsto> [c]))] else [])"
  by (cases s) auto

lemma ms_timeframe_rx:
  "ms timeframe_rx (None, t, Map.empty) =
     (case dropWhile is_digit t of [] \<Rightarrow> []
      | u # r \<Rightarrow>
          if takeWhile is_digit t \<noteq> [] \<and> is_unit u \<and> (r = [] \<or> r = [CHR 0x0A])
          then [(Some u, r, [1 \<mapsto> takeWhile is_digit t, 2 \<mapsto> [u]])] else [])"
proof -
  let ?k = "length (takeWhile is_digit t)"
  let ?Y = "Seq (Grp 2 (Cls is_unit)) Eol"
  let ?f = "\<lambda>j. ms ?Y (prev_after None t j, drop j t, [1 \<mapsto> take j t])"
  have bol: "ms (Seq Bol r) (None, t, Map.empty) = ms r (None, t, Map.empty)" for r
    by simp
  have unfold: "ms timeframe_rx (None, t, Map.empty) = concat (map ?f (rev [1 ..< Suc ?k]))"
    unfolding timeframe_rx_def cat.simps bol
    by (simp only: ms.simps(5) ms_group_many map_map comp_def)
  have early: "\<forall>j. 1 \<le> j \<and> j < ?k \<longrightarrow> ?f j = []"
  proof (intro allI impI)
    fix j assume j: "1 \<le> j \<and> j < ?k"
    then have jl: "j < length t" using length_takeWhile_le[of is_digit t] by linarith
    have "takeWhile is_digit t ! j = t ! j" using j by (simp add: takeWhile_nth)
    moreover have "takeWhile is_digit t ! j \<in> set (takeWhile is_digit t)" using j by simp
    ultimately have "is_digit (t ! j)" by (metis set_takeWhileD)
    then have "\<not> is_unit (t ! j)" by (rule digit_not_unit)
    moreover have "drop j t = t ! j # drop (Suc j) t" using jl by (simp add: Cons_nth_drop_Suc)
    ultimately show "?f j = []" unfolding ms_unit_eol by simp
  qed
  define w where "w = takeWhile is_digit t"
  define d where "d = dropWhile is_digit t"
  have k: "take (length w) t = w" "drop (length w) t = d"
    unfolding w_def d_def by (simp_all add: takeWhile_eq_take[symmetric] dropWhile_eq_drop[symmetric])
  have "ms timeframe_rx (None, t, Map.empty) = (if 1 \<le> ?k then ?f ?k else [])"
    unfolding unfold using early by (rule concat_greedy_last)
  also have "\<dots> = (if 1 \<le> length w
                    then ms ?Y (prev_after None t (length w), d, [1 \<mapsto> w]) else [])"
    unfolding w_def[symmetric] k ..
  also have "\<dots> = (case d of [] \<Rightarrow> []
      | u # r \<Rightarrow>
          if w \<noteq> [] \<and> is_unit u \<and> (r = [] \<or> r = [CHR 0x0A])
          then [(Some u, r, [1 \<mapsto> w, 2 \<mapsto> [u]])] else [])"
    unfolding ms_unit_eol by (cases d; cases w) simp_all
  finally show ?thesis unfolding w_def d_def .
qed

lemma re_match_timeframe_rx:
  "re_match timeframe_rx t =
     (case dropWhile is_digit t of [] \<Rightarrow> None
      | u # r \<Rightarrow>
          if takeWhile is_digit t \<noteq> [] \<and> is_unit u \<and> (r = [] \<or> r = [CHR 0x0A])
          then Some [1 \<mapsto> takeWhile is_digit t, 2 \<mapsto> [u]] else None)"
proof -
  define d where "d = dropWhile is_digit t"
  show ?thesis unfolding re_match_def ms_timeframe_rx d_def[symmetric] by (cases d) simp_all
qed

lemma digits_then_rest:
  assumes "list_all is_digit ds" and "\<not> is_digit u"
  shows "takeWhile is_digit (ds @ u # r) = ds" and "dropWhile is_digit (ds @ u # r) = u # r"
  using assms by (simp_all add: list_all_iff takeWhile_append2 dropWhile_append2)

lemma re_match_timeframe_matching:
  assumes "t = ds @ [u] \<or> t = ds @ [u, CHR 0x0A]" and "ds \<noteq> []" and "list_all is_digit ds"
    and "is_unit u"
  shows "re_match timeframe_rx t = Some [1 \<mapsto> ds, 2 \<mapsto> [u]]"
proof -
  have nd: "\<not> is_digit u" using assms(4) digit_not_unit by blast
  from assms(1) show ?thesis
  proof
    assume t: "t = ds @ [u]"
    show ?thesis unfolding re_match_timeframe_rx t
      using digits_then_rest[OF assms(3) nd, of "[]"] assms(2,4) by simp
  next
    assume t: "t = ds @ [u, CHR 0x0A]"
    show ?thesis unfolding re_match_timeframe_rx t
      using digits_then_rest[OF assms(3) nd, of "[CHR 0x0A]"] assms(2,4) by simp
  qed
qed

lemma matches_timeframe_iff:
  "matches_timeframe t \<longleftrightarrow>
     (\<exists>ds u. (t = ds @ [u] \<or> t = ds @ [u, CHR 0x0A]) \<and> ds \<noteq> [] \<and> list_all is_digit ds \<and> is_unit u)"
proof
  assume "matches_timeframe t"
  then consider "canonical_timeframe t"
    | "t \<noteq> []" "last t = CHR 0x0A" "canonical_timeframe (butlast t)"
    unfolding matches_timeframe_def by blast
  then show "\<exists>ds u. (t = ds @ [u] \<or> t = ds @ [u, CHR 0x0A]) \<and> ds \<noteq> [] \<and> list_all is_digit ds \<and> is_unit u"
  proof cases
    case 1
    then show ?thesis unfolding canonical_timeframe_iff by blast
  next
    case 2
    from 2(3) obtain ds u where b: "butlast t = ds @ [u]" "ds \<noteq> []" "list_all is_digit ds" "is_unit u"
      unfolding canonical_timeframe_iff by blast
    have "t = butlast t @ [last t]" using 2(1) by simp
    then have "t = ds @ [u, CHR 0x0A]" using b(1) 2(2) by simp
    then show ?thesis using b by blast
  qed
next
  assume "\<exists>ds u. (t = ds @ [u] \<or> t = ds @ [u, CHR 0x0A]) \<and> ds \<noteq> [] \<and> list_all is_digit ds \<and> is_unit u"
  then obtain ds u where t: "t = ds @ [u] \<or> t = ds @ [u, CHR 0x0A]"
    and d: "ds \<noteq> []" "list_all is_digit ds" "is_unit u" by blast
  have c: "canonical_timeframe (ds @ [u])" unfolding canonical_timeframe_iff using d by blast
  from t show "matches_timeframe t"
  proof
    assume "t = ds @ [u]"
    then show ?thesis using c by (simp add: matches_timeframe_def)
  next
    assume t2: "t = ds @ [u, CHR 0x0A]"
    then have "butlast t = ds @ [u]" "last t = CHR 0x0A" "t \<noteq> []"
      by (simp_all add: butlast_append)
    then show ?thesis using c by (simp add: matches_timeframe_def)
  qed
qed

lemma re_match_timeframe_None_iff:
  "re_match timeframe_rx t = None \<longleftrightarrow> \<not> matches_timeframe t"
proof
  assume n: "re_match timeframe_rx t = None"
  show "\<not> matches_timeframe t"
  proof
    assume "matches_timeframe t"
    then obtain ds u where "t = ds @ [u] \<or> t = ds @ [u, CHR 0x0A]" "ds \<noteq> []"
      "list_all is_digit ds" "is_unit u" unfolding matches_timeframe_iff by blast
    then have "re_match timeframe_rx t = Some [1 \<mapsto> ds, 2 \<mapsto> [u]]"
      by (rule re_match_timeframe_matching)
    then show False using n by simp
  qed
next
  assume nm: "\<not> matches_timeframe t"
  show "re_match timeframe_rx t = None"
  proof (rule ccontr)
    assume "re_match timeframe_rx t \<noteq> None"
    then obtain u r where d: "dropWhile is_digit t = u # r" and w: "takeWhile is_digit t \<noteq> []"
      and u: "is_unit u" and r: "r = [] \<or> r = [CHR 0x0A]"
      unfolding re_match_timeframe_rx
      by (cases "dropWhile is_digit t") (auto split: if_splits simp del: dropWhile_eq_Nil_conv)
    have "t = takeWhile is_digit t @ u # r" using d by (metis takeWhile_dropWhile_id)
    moreover have "list_all is_digit (takeWhile is_digit t)"
      by (auto simp: list_all_iff dest: set_takeWhileD)
    ultimately have "matches_timeframe t" unfolding matches_timeframe_iff using w u r by blast
    then show False using nm by simp
  qed
qed

lemma unit_mapping_unit:
  "is_unit u \<Longrightarrow> \<exists>k. unit_mapping [u] = Some k \<and> kwarg_microseconds k = unit_microseconds u"
  by (auto simp: is_unit_def unit_mapping_def unit_microseconds_def)

lemma unit_microseconds_pos: "0 < unit_microseconds u"
  by (simp add: unit_microseconds_def)

lemma py_int_digits:
  assumes "ds \<noteq> []" and "list_all is_digit ds"
  shows "py_int ds =
           (if max_str_digits < length ds then Inl ValueError else Inr (decimal_value ds))"
  using assms by (simp add: py_int_def)

lemma parse_timeframe_matching:
  assumes now: "valid_datetime now"
    and t: "lower s = ds @ [u] \<or> lower s = ds @ [u, CHR 0x0A]"
    and ds: "ds \<noteq> []" "list_all is_digit ds" and u: "is_unit u"
  shows "parse_timeframe now s =
           (if max_str_digits < length ds then Inl ValueError
            else if int (decimal_value ds) * unit_microseconds u \<le> now
            then Inr (now - int (decimal_value ds) * unit_microseconds u, now)
            else Inl OverflowError)"
proof -
  define delta where "delta = int (decimal_value ds) * unit_microseconds u"
  have m: "re_match timeframe_rx (lower s) = Some [1 \<mapsto> ds, 2 \<mapsto> [u]]"
    using t ds u by (rule re_match_timeframe_matching)
  from unit_mapping_unit[OF u] obtain k where k: "unit_mapping [u] = Some k"
    "kwarg_microseconds k = unit_microseconds u" by blast
  have d0: "0 \<le> delta" unfolding delta_def using unit_microseconds_pos[of u] by simp
  have nowb: "0 \<le> now" "now < 3652059 * microseconds_per_day" using now by (simp_all add: valid_datetime_def)
  have td: "timedelta k (decimal_value ds)
              = (if delta < 1000000000 * microseconds_per_day then Inr delta else Inl OverflowError)"
    by (simp add: timedelta_def k delta_def)
  have sub: "datetime_sub now delta = (if delta \<le> now then Inr (now - delta) else Inl OverflowError)"
    using d0 nowb by (auto simp: datetime_sub_def valid_datetime_def)
  have small: "delta \<le> now \<longrightarrow> delta < 1000000000 * microseconds_per_day"
    using nowb by (simp add: microseconds_per_day_def)
  have "parse_timeframe now s =
          (if max_str_digits < length ds then Inl ValueError
           else if delta \<le> now then Inr (now - delta, now) else Inl OverflowError)"
    using small by (simp add: parse_timeframe_def m group_def py_int_digits[OF ds] k td sub)
  then show ?thesis unfolding delta_def .
qed

lemma parse_timeframe_no_match:
  "\<not> matches_timeframe (lower s) \<Longrightarrow> parse_timeframe now s = Inl ValueError"
  by (simp add: parse_timeframe_def re_match_timeframe_None_iff[symmetric])

section \<open>Lower case leaves digits and units alone\<close>

lemma lower_char_digit_id: "is_digit c \<Longrightarrow> lower_char c = c"
proof -
  have "\<forall>x\<in>set digit_chars. lower_char x = x"
    by (simp add: digit_chars_def lower_char_def upper_letters_def lower_letters_def)
  then show "is_digit c \<Longrightarrow> lower_char c = c" by (simp add: is_digit_def)
qed

lemma lower_char_unit_id: "is_unit c \<Longrightarrow> lower_char c = c"
proof -
  have "\<forall>x\<in>set ''mhdw''. lower_char x = x"
    by (simp add: lower_char_def upper_letters_def lower_letters_def)
  then show "is_unit c \<Longrightarrow> lower_char c = c" unfolding is_unit_def by blast
qed

lemma lower_char_upper_not_digit: "c \<in> set upper_letters \<Longrightarrow> \<not> is_digit (lower_char c)"
proof -
  have "\<forall>x\<in>set upper_letters. \<not> is_digit (lower_char x)"
    by (simp add: lower_char_def upper_letters_def lower_letters_def is_digit_def digit_chars_def)
  then show "c \<in> set upper_letters \<Longrightarrow> \<not> is_digit (lower_char c)" by blast
qed

lemma lower_char_other_id: "c \<notin> set upper_letters \<Longrightarrow> lower_char c = c"
proof -
  assume "c \<notin> set upper_letters"
  then have "c \<notin> set (map fst (zip upper_letters lower_letters))"
    by (simp add: upper_letters_def lower_letters_def)
  then have "map_of (zip upper_letters lower_letters) c = None"
    by (simp only: map_of_eq_None_iff set_map not_False_eq_True)
  then show ?thesis by (simp add: lower_char_def)
qed

lemma lower_char_digit: "is_digit (lower_char c) \<longleftrightarrow> is_digit c"
proof (cases "c \<in> set upper_letters")
  case True
  then have "\<not> is_digit (lower_char c)" by (rule lower_char_upper_not_digit)
  moreover have "\<not> is_digit c"
  proof
    assume "is_digit c"
    then have "lower_char c = c" by (rule lower_char_digit_id)
    then show False using \<open>is_digit c\<close> \<open>\<not> is_digit (lower_char c)\<close> by simp
  qed
  ultimately show ?thesis by simp
next
  case False
  then show ?thesis by (simp add: lower_char_other_id)
qed

lemma lower_digits_id: "list_all is_digit ds \<Longrightarrow> lower ds = ds"
  by (induction ds) (simp_all add: lower_def lower_char_digit_id)

lemma lower_digits_iff: "list_all is_digit (lower ds) \<longleftrightarrow> list_all is_digit ds"
  by (induction ds) (simp_all add: lower_def lower_char_digit)

lemma lower_canonical_id: "canonical_timeframe s \<Longrightarrow> lower s = s"
proof -
  assume "canonical_timeframe s"
  then obtain ds u where s: "s = ds @ [u]" and "list_all is_digit ds" "is_unit u"
    unfolding canonical_timeframe_iff by blast
  then have "lower ds = ds" "lower_char u = u"
    by (simp_all add: lower_digits_id lower_char_unit_id)
  then show ?thesis unfolding s by (simp add: lower_def)
qed

section \<open>Reading and printing a number\<close>

lemma digit_value_char: "d < 10 \<Longrightarrow> digit_value (digit_char d) = d"
proof -
  assume "d < 10"
  then have "d \<in> {0, 1, 2, 3, 4, 5, 6, 7, 8, 9}" by auto
  then show ?thesis
    by (elim insertE emptyE; simp add: digit_value_def digit_char_def digit_chars_def)
qed

lemma digit_value_le: "digit_value c \<le> 9"
  by (simp add: digit_value_def digit_chars_def)

lemma decimal_value_snoc: "decimal_value (ds @ [c]) = 10 * decimal_value ds + digit_value c"
  by (simp add: decimal_value_def)

lemma decimal_value_str_nat: "decimal_value (str_nat n) = n"
proof (induction n rule: str_nat.induct)
  case (1 n)
  show ?case
  proof (cases "n < 10")
    case True
    then show ?thesis
      by (subst str_nat.simps) (simp add: decimal_value_def digit_value_char)
  next
    case False
    then have "decimal_value (str_nat (n div 10)) = n div 10" using "1.IH" by simp
    then show ?thesis using False
      by (subst str_nat.simps) (simp add: decimal_value_snoc digit_value_char)
  qed
qed

text \<open>A string of \<open>k\<close> digits denotes a number below \<open>10 ^ k\<close>, and such a number
  prints with \<open>k\<close> digits at most: \<^verbatim>\<open>str\<close> accepts every number that \<^verbatim>\<open>int\<close> has read.\<close>

lemma decimal_value_bound: "decimal_value ds < 10 ^ length ds"
proof (induction ds rule: rev_induct)
  case Nil
  show ?case by (simp add: decimal_value_def)
next
  case (snoc c ds)
  have "10 * decimal_value ds + digit_value c < 10 * 10 ^ length ds"
    using snoc digit_value_le[of c] by linarith
  then show ?case by (simp add: decimal_value_snoc)
qed

lemma length_str_nat: "n < 10 ^ k \<Longrightarrow> 0 < k \<Longrightarrow> length (str_nat n) \<le> k"
proof (induction n arbitrary: k rule: str_nat.induct)
  case (1 n)
  show ?case
  proof (cases "n < 10")
    case True
    then show ?thesis using "1.prems"(2) by (subst str_nat.simps) simp
  next
    case False
    obtain j where k: "k = Suc j" using "1.prems"(2) by (cases k) auto
    have j: "0 < j"
    proof (rule ccontr)
      assume "\<not> 0 < j"
      then have "n < 10" using "1.prems"(1) k by simp
      then show False using False by simp
    qed
    have "n < 10 * 10 ^ j" using "1.prems"(1) k by simp
    then have nd: "n div 10 < 10 ^ j" by linarith
    from False nd j have "length (str_nat (n div 10)) \<le> j" by (rule "1.IH")
    then show ?thesis using False by (subst str_nat.simps) (simp add: k)
  qed
qed

lemma py_str_decimal_value:
  assumes "ds \<noteq> []" and "length ds \<le> max_str_digits"
  shows "py_str (decimal_value ds) = Inr (str_nat (decimal_value ds))"
proof -
  have "length (str_nat (decimal_value ds)) \<le> length ds"
    using decimal_value_bound[of ds] assms(1) by (intro length_str_nat) simp_all
  then show ?thesis using assms(2) by (simp add: py_str_def)
qed

lemma unit_names_unit:
  "is_unit u \<Longrightarrow> unit_names v [u] = Some (unit_word u @ (if v = 1 then [] else ''s''))"
proof -
  have "\<forall>x\<in>set ''mhdw''. unit_names v [x] = Some (unit_word x @ (if v = 1 then [] else ''s''))"
    by (simp add: unit_names_def unit_word_def)
  then show "is_unit u \<Longrightarrow> unit_names v [u] = Some (unit_word u @ (if v = 1 then [] else ''s''))"
    unfolding is_unit_def by blast
qed

lemma human_readable_timeframe_matching:
  assumes t: "lower s = ds @ [u] \<or> lower s = ds @ [u, CHR 0x0A]"
    and ds: "ds \<noteq> []" "list_all is_digit ds" and u: "is_unit u"
  shows "human_readable_timeframe s =
           (if max_str_digits < length ds then Inl ValueError
            else Inr (''Last '' @ str_nat (decimal_value ds) @ '' '' @ unit_word u
                      @ (if decimal_value ds = 1 then [] else ''s'')))"
proof -
  have m: "re_match timeframe_rx (lower s) = Some [1 \<mapsto> ds, 2 \<mapsto> [u]]"
    using t ds u by (rule re_match_timeframe_matching)
  show ?thesis
  proof (cases "max_str_digits < length ds")
    case True
    then show ?thesis
      by (simp add: human_readable_timeframe_def m group_def py_int_digits[OF ds])
  next
    case False
    then have "py_str (decimal_value ds) = Inr (str_nat (decimal_value ds))"
      using ds(1) by (intro py_str_decimal_value) simp_all
    then show ?thesis using False
      by (simp add: human_readable_timeframe_def m group_def py_int_digits[OF ds]
          unit_names_unit[OF u])
  qed
qed

section \<open>A timeframe of more digits than the interpreter reads\<close>

lemma long_digits_facts:
  "long_digits \<noteq> []" "list_all is_digit long_digits" "max_str_digits < length long_digits"
  by (simp_all add: long_digits_def max_str_digits_def list_all_iff is_digit_def digit_chars_def)

lemma long_timeframe_lower: "lower (long_digits @ ''h'') = long_digits @ [CHR ''h'']"
proof -
  have "canonical_timeframe (long_digits @ [CHR ''h''])"
    unfolding canonical_timeframe_iff using long_digits_facts(1,2) by (simp add: is_unit_def)
  then show ?thesis using lower_canonical_id by simp
qed

section \<open>Claims about the timeframe functions\<close>

text \<open>
  Claim C7, as amended. For a string \<open>s\<close> of one or more digits, 4300 at most, and
  one unit letter in either case, \<^verbatim>\<open>human_readable_timeframe\<close> returns
  \<^verbatim>\<open>Last N word\<close>, where \<open>N\<close> is the number the digits denote, printed in decimal,
  and the word is the name of the unit, in the singular exactly when \<open>N\<close> is 1. The
  decimal print of \<open>N\<close> reads back as \<open>N\<close>.
\<close>

theorem human_readable_timeframe_renders:
  assumes "canonical_timeframe (lower s)" and "length (butlast s) \<le> max_str_digits"
  shows "human_readable_timeframe s =
           Inr (''Last '' @ str_nat (decimal_value (butlast s)) @ '' ''
                @ unit_word (lower_char (last s))
                @ (if decimal_value (butlast s) = 1 then [] else ''s''))
         \<and> decimal_value (str_nat (decimal_value (butlast s))) = decimal_value (butlast s)"
proof -
  from assms(1) obtain ds u where l: "lower s = ds @ [u]" and ds: "ds \<noteq> []" "list_all is_digit ds"
    and u: "is_unit u" unfolding canonical_timeframe_iff by blast
  have sne: "s \<noteq> []" using l by (auto simp: lower_def)
  then have s: "s = butlast s @ [last s]" by simp
  then have "lower s = lower (butlast s) @ [lower_char (last s)]"
    by (metis (no_types) list.simps(8,9) lower_def map_append)
  then have b: "lower (butlast s) = ds" and la: "lower_char (last s) = u" using l by simp_all
  have "list_all is_digit (butlast s)" using b ds(2) lower_digits_iff by blast
  then have "lower (butlast s) = butlast s" by (rule lower_digits_id)
  then have bs: "butlast s = ds" using b by simp
  have "lower s = ds @ [u] \<or> lower s = ds @ [u, CHR 0x0A]" using l by simp
  from human_readable_timeframe_matching[OF this ds u]
  have "human_readable_timeframe s =
           Inr (''Last '' @ str_nat (decimal_value ds) @ '' '' @ unit_word u
                @ (if decimal_value ds = 1 then [] else ''s''))"
    using assms(2) bs by simp
  then show ?thesis unfolding bs la by (simp add: decimal_value_str_nat)
qed

text \<open>The examples of the specification, and an upper-case unit after leading
  zeros.\<close>

theorem human_readable_timeframe_renders_witness:
  "human_readable_timeframe ''1w'' = Inr ''Last 1 week''
   \<and> human_readable_timeframe ''3h'' = Inr ''Last 3 hours''
   \<and> human_readable_timeframe ''001D'' = Inr ''Last 1 day''"
proof -
  have c: "canonical_timeframe (lower ''1w'')" "canonical_timeframe (lower ''3h'')"
    "canonical_timeframe (lower ''001D'')" by code_simp+
  have b: "length (butlast ''1w'') \<le> max_str_digits" "length (butlast ''3h'') \<le> max_str_digits"
    "length (butlast ''001D'') \<le> max_str_digits" by (simp_all add: max_str_digits_def)
  have e: "''Last '' @ str_nat (decimal_value (butlast ''1w'')) @ '' ''
             @ unit_word (lower_char (last ''1w''))
             @ (if decimal_value (butlast ''1w'') = 1 then [] else ''s'') = ''Last 1 week''"
    "''Last '' @ str_nat (decimal_value (butlast ''3h'')) @ '' ''
             @ unit_word (lower_char (last ''3h''))
             @ (if decimal_value (butlast ''3h'') = 1 then [] else ''s'') = ''Last 3 hours''"
    "''Last '' @ str_nat (decimal_value (butlast ''001D'')) @ '' ''
             @ unit_word (lower_char (last ''001D''))
             @ (if decimal_value (butlast ''001D'') = 1 then [] else ''s'') = ''Last 1 day''"
    by code_simp+
  note r1 = human_readable_timeframe_renders[OF c(1) b(1), THEN conjunct1]
  note r2 = human_readable_timeframe_renders[OF c(2) b(2), THEN conjunct1]
  note r3 = human_readable_timeframe_renders[OF c(3) b(3), THEN conjunct1]
  have 1: "human_readable_timeframe ''1w'' = Inr ''Last 1 week''" using r1 by (simp only: e(1))
  have 2: "human_readable_timeframe ''3h'' = Inr ''Last 3 hours''" using r2 by (simp only: e(2))
  have 3: "human_readable_timeframe ''001D'' = Inr ''Last 1 day''" using r3 by (simp only: e(3))
  from 1 2 3 show ?thesis by (intro conjI)
qed

text \<open>The claim as it stands fails for a timeframe of 4301 digits: it is in the
  grammar, \<^verbatim>\<open>int\<close> refuses to read the digits, and \<^verbatim>\<open>human_readable_timeframe\<close>
  raises \<^verbatim>\<open>ValueError\<close> instead of returning a string.\<close>

theorem human_readable_timeframe_digit_limit:
  "length long_digits = 4301
   \<and> canonical_timeframe (lower (long_digits @ ''h''))
   \<and> human_readable_timeframe (long_digits @ ''h'') = Inl ValueError"
proof -
  have 1: "length long_digits = 4301" by (simp add: long_digits_def)
  have 2: "canonical_timeframe (lower (long_digits @ ''h''))"
    unfolding long_timeframe_lower canonical_timeframe_iff
    using long_digits_facts(1,2) by (simp add: is_unit_def)
  have "lower (long_digits @ ''h'') = long_digits @ [CHR ''h'']
        \<or> lower (long_digits @ ''h'') = long_digits @ [CHR ''h'', CHR 0x0A]"
    using long_timeframe_lower by simp
  from human_readable_timeframe_matching[OF this long_digits_facts(1,2)]
  have 3: "human_readable_timeframe (long_digits @ ''h'') = Inl ValueError"
    using long_digits_facts(3) by (simp add: is_unit_def)
  from 1 2 3 show ?thesis by (intro conjI)
qed

text \<open>
  Claim C9, as amended. For an ASCII string \<open>s\<close>, \<^verbatim>\<open>parse_timeframe\<close> raises
  \<^verbatim>\<open>ValueError\<close> when the lower-cased \<open>s\<close> does not match \<^verbatim>\<open>^[0-9]+[mhdw]$\<close>, where
  \<^verbatim>\<open>$\<close> also holds before a line feed that ends the string, and when it matches
  with more than 4300 digits, which \<^verbatim>\<open>int\<close> refuses to read. When it matches with
  digits \<open>ds\<close>, 4300 at most, and unit \<open>u\<close>, and the \<open>N\<close> units that they denote do
  not reach back before \<^verbatim>\<open>datetime.min\<close>, it returns the pair of \<open>now\<close> minus \<open>N\<close>
  units and \<open>now\<close>.
\<close>

theorem parse_timeframe_result:
  assumes "valid_datetime now" and "list_all is_ascii s"
  shows "(\<not> matches_timeframe (lower s) \<longrightarrow> parse_timeframe now s = Inl ValueError)
       \<and> (\<forall>ds u. (lower s = ds @ [u] \<or> lower s = ds @ [u, CHR 0x0A])
                  \<and> ds \<noteq> [] \<and> list_all is_digit ds \<and> is_unit u \<longrightarrow>
              (max_str_digits < length ds \<longrightarrow> parse_timeframe now s = Inl ValueError)
            \<and> (length ds \<le> max_str_digits
                 \<and> int (decimal_value ds) * unit_microseconds u \<le> now \<longrightarrow>
               parse_timeframe now s
                 = Inr (now - int (decimal_value ds) * unit_microseconds u, now)))"
proof (intro conjI allI impI)
  assume "\<not> matches_timeframe (lower s)"
  then show "parse_timeframe now s = Inl ValueError" by (rule parse_timeframe_no_match)
next
  fix ds u
  assume a: "(lower s = ds @ [u] \<or> lower s = ds @ [u, CHR 0x0A])
             \<and> ds \<noteq> [] \<and> list_all is_digit ds \<and> is_unit u"
  assume "max_str_digits < length ds"
  then show "parse_timeframe now s = Inl ValueError"
    using parse_timeframe_matching[OF assms(1), of s ds u] a by simp
next
  fix ds u
  assume a: "(lower s = ds @ [u] \<or> lower s = ds @ [u, CHR 0x0A])
             \<and> ds \<noteq> [] \<and> list_all is_digit ds \<and> is_unit u"
  assume "length ds \<le> max_str_digits \<and> int (decimal_value ds) * unit_microseconds u \<le> now"
  then show "parse_timeframe now s
               = Inr (now - int (decimal_value ds) * unit_microseconds u, now)"
    using parse_timeframe_matching[OF assms(1), of s ds u] a by simp
qed

text \<open>Two hours and one week before the clock of the examples, and a string that
  is no timeframe.\<close>

theorem parse_timeframe_result_witness:
  "parse_timeframe example_now ''2H'' = Inr (63929340000000000, 63929347200000000)
   \<and> parse_timeframe example_now ''1w'' = Inr (63928742400000000, 63929347200000000)
   \<and> parse_timeframe example_now ''2 hours'' = Inl ValueError"
proof -
  have v: "valid_datetime example_now"
    by (simp add: valid_datetime_def example_now_def microseconds_per_day_def)
  have a: "list_all is_ascii ''2H''" "list_all is_ascii ''1w''" "list_all is_ascii ''2 hours''"
    by (simp_all add: is_ascii_def)
  have l: "lower ''2H'' = ''2'' @ [CHR ''h'']" "lower ''1w'' = ''1'' @ [CHR ''w'']"
    by code_simp+
  have d: "list_all is_digit ''2''" "list_all is_digit ''1''" "is_unit CHR ''h''" "is_unit CHR ''w''"
    by (simp_all add: is_digit_def digit_chars_def is_unit_def)
  have n: "decimal_value ''2'' = 2" "decimal_value ''1'' = 1"
    by (simp_all add: decimal_value_def digit_value_def digit_chars_def)
  have 1: "parse_timeframe example_now ''2H'' = Inr (63929340000000000, 63929347200000000)"
    using parse_timeframe_result[OF v a(1), THEN conjunct2, rule_format, of "''2''" "CHR ''h''",
                                 THEN conjunct2] l(1) d
    by (simp add: n max_str_digits_def unit_microseconds_def example_now_def
        microseconds_per_day_def)
  have 2: "parse_timeframe example_now ''1w'' = Inr (63928742400000000, 63929347200000000)"
    using parse_timeframe_result[OF v a(2), THEN conjunct2, rule_format, of "''1''" "CHR ''w''",
                                 THEN conjunct2] l(2) d
    by (simp add: n max_str_digits_def unit_microseconds_def example_now_def
        microseconds_per_day_def)
  have "\<not> matches_timeframe (lower ''2 hours'')" by code_simp
  then have 3: "parse_timeframe example_now ''2 hours'' = Inl ValueError"
    using parse_timeframe_result[OF v a(3), THEN conjunct1] by blast
  from 1 2 3 show ?thesis by (intro conjI)
qed

text \<open>The claim as it stands fails for a timeframe of 4301 digits: the lower-cased
  string matches the grammar, and \<^verbatim>\<open>parse_timeframe\<close> raises \<^verbatim>\<open>ValueError\<close> all the
  same, whatever the clock says.\<close>

theorem parse_timeframe_digit_limit:
  "length long_digits = 4301
   \<and> list_all is_digit long_digits
   \<and> matches_timeframe (lower (long_digits @ ''h''))
   \<and> \<not> (\<exists>now. valid_datetime now \<and> parse_timeframe now (long_digits @ ''h'') \<noteq> Inl ValueError)
   \<and> valid_datetime example_now
   \<and> parse_timeframe example_now (long_digits @ ''h'') = Inl ValueError"
proof -
  have 1: "length long_digits = 4301" by (simp add: long_digits_def)
  have l: "lower (long_digits @ ''h'') = long_digits @ [CHR ''h'']
           \<or> lower (long_digits @ ''h'') = long_digits @ [CHR ''h'', CHR 0x0A]"
    using long_timeframe_lower by simp
  have u: "is_unit CHR ''h''" by (simp add: is_unit_def)
  have 2: "matches_timeframe (lower (long_digits @ ''h''))"
    unfolding matches_timeframe_iff using l long_digits_facts(1,2) u by blast
  have 3: "parse_timeframe now (long_digits @ ''h'') = Inl ValueError" if "valid_datetime now" for now
    using parse_timeframe_matching[OF that l long_digits_facts(1,2) u] long_digits_facts(3)
    by simp
  have v: "valid_datetime example_now"
    by (simp add: valid_datetime_def example_now_def microseconds_per_day_def)
  have 4: "\<not> (\<exists>now. valid_datetime now \<and> parse_timeframe now (long_digits @ ''h'') \<noteq> Inl ValueError)"
    using 3 by blast
  from 1 long_digits_facts(2) 2 4 v 3[OF v] show ?thesis by (intro conjI)
qed

section \<open>A window that begins before year 1\<close>

text \<open>A timeframe of the grammar can ask for more time than there is before the
  clock: whatever the clock says, \<^verbatim>\<open>parse_timeframe\<close> returns no pair for 9999999
  weeks. The subtraction raises \<^verbatim>\<open>OverflowError\<close>, an exception that the function
  does not document and that its caller in \<^verbatim>\<open>dynatrace_api/metrics.py\<close>, which
  handles \<^verbatim>\<open>ValueError\<close> only, does not catch.\<close>

lemma parse_timeframe_overflow:
  "canonical_timeframe (lower ''9999999w'')
   \<and> \<not> (\<exists>now. valid_datetime now \<and> (\<exists>r. parse_timeframe now ''9999999w'' = Inr r))
   \<and> parse_timeframe example_now ''9999999w'' = Inl OverflowError"
proof -
  have c: "canonical_timeframe (lower ''9999999w'')" by code_simp
  have l: "lower ''9999999w'' = ''9999999'' @ [CHR ''w''] \<or>
           lower ''9999999w'' = ''9999999'' @ [CHR ''w'', CHR 0x0A]" by code_simp
  have d: "''9999999'' \<noteq> []" "list_all is_digit ''9999999''" "is_unit CHR ''w''"
    by (simp_all add: is_digit_def digit_chars_def is_unit_def)
  have n: "int (decimal_value ''9999999'') * unit_microseconds CHR ''w'' = 6047999395200000000"
    by (simp add: decimal_value_def digit_value_def digit_chars_def unit_microseconds_def)
  have o: "parse_timeframe now ''9999999w'' = Inl OverflowError" if "valid_datetime now" for now
  proof -
    have "now < 6047999395200000000"
      using that by (simp add: valid_datetime_def microseconds_per_day_def)
    then show ?thesis using parse_timeframe_matching[OF that l d] unfolding n
      by (simp add: max_str_digits_def)
  qed
  have v: "valid_datetime example_now"
    by (simp add: valid_datetime_def example_now_def microseconds_per_day_def)
  have "\<not> (\<exists>now. valid_datetime now \<and> (\<exists>r. parse_timeframe now ''9999999w'' = Inr r))"
    using o by auto
  then show ?thesis using c o[OF v] by blast
qed

section \<open>The timeframe of the pattern tier is canonical\<close>

lemma keyword_timeframe_default:
  "\<not> list_ex (contains text) (map fst kws) \<Longrightarrow> keyword_timeframe kws text = ''2h''"
  by (induction kws) auto

lemma canonical_parts:
  assumes "canonical_timeframe s"
  shows "s = butlast s @ [last s]" "butlast s \<noteq> []" "list_all is_digit (butlast s)" "is_unit (last s)"
  using assms by (simp_all add: canonical_timeframe_def)

text \<open>The first pattern of the cascade, \<^verbatim>\<open>\b(\d+)\s*([mhdw])\b\<close>, finds a canonical
  timeframe in itself: the cascade gives a canonical text back as it is.\<close>

lemma digit_is_word: "is_digit c \<Longrightarrow> is_word c \<and> \<not> is_space c"
proof -
  have "\<forall>x\<in>set digit_chars. is_word x \<and> \<not> is_space x"
    by (simp add: digit_chars_def is_word_def is_space_def)
  then show "is_digit c \<Longrightarrow> is_word c \<and> \<not> is_space c" by (simp add: is_digit_def)
qed

lemma unit_is_word: "is_unit c \<Longrightarrow> is_word c \<and> \<not> is_space c"
proof -
  have "\<forall>x\<in>set ''mhdw''. is_word x \<and> \<not> is_space x"
    by (simp add: is_word_def is_space_def lower_letters_def)
  then show "is_unit c \<Longrightarrow> is_word c \<and> \<not> is_space c" unfolding is_unit_def by blast
qed

lemma ms_spaces_unit_boundary:
  assumes "\<not> is_space c"
  shows "ms (Seq (Many is_space 0) (Seq (Grp 2 (Cls is_unit)) WordB)) (p, c # r, g) =
           (if is_unit c \<and> \<not> word_after r then [(Some c, r, g(2 \<mapsto> [c]))] else [])"
  using assms unit_is_word[of c] by (auto simp: prev_after_def word_before_def)

lemma ms_timeframe_rx_explicit:
  assumes "ds \<noteq> []" and "list_all is_digit ds" and "is_unit u"
  shows "ms timeframe_rx_explicit (None, ds @ [u], Map.empty)
           = [(Some u, [], [1 \<mapsto> ds, 2 \<mapsto> [u]])]"
proof -
  let ?Y = "Seq (Many is_space 0) (Seq (Grp 2 (Cls is_unit)) WordB)"
  let ?f = "\<lambda>j. ms ?Y (prev_after None (ds @ [u]) j, drop j (ds @ [u]), [1 \<mapsto> take j (ds @ [u])])"
  have nd: "\<not> is_digit u" using assms(3) digit_not_unit by blast
  have ns: "\<not> is_space u" using unit_is_word[OF assms(3)] by simp
  have tw: "takeWhile is_digit (ds @ [u]) = ds"
    using digits_then_rest(1)[OF assms(2) nd, of "[]"] .
  have wa: "word_after (ds @ [u])"
    using assms(1,2) digit_is_word by (cases ds) (simp_all add: word_after_def)
  have wordb: "ms (Seq WordB r) (None, ds @ [u], Map.empty) = ms r (None, ds @ [u], Map.empty)" for r
    using wa by (simp add: word_before_def)
  have unfold: "ms timeframe_rx_explicit (None, ds @ [u], Map.empty)
                  = concat (map ?f (rev [1 ..< Suc (length ds)]))"
    unfolding timeframe_rx_explicit_def cat.simps wordb
    by (simp only: ms.simps(5) ms_group_many map_map comp_def tw)
  have early: "\<forall>j. 1 \<le> j \<and> j < length ds \<longrightarrow> ?f j = []"
  proof (intro allI impI)
    fix j assume j: "1 \<le> j \<and> j < length ds"
    have dj: "is_digit (ds ! j)" using assms(2) j by (simp add: list_all_length)
    have nsj: "\<not> is_space (ds ! j)" and nu: "\<not> is_unit (ds ! j)"
      using dj digit_is_word digit_not_unit by blast+
    have "drop j (ds @ [u]) = (ds @ [u]) ! j # drop (Suc j) (ds @ [u])"
      using j by (intro Cons_nth_drop_Suc[symmetric]) simp
    then have d: "drop j (ds @ [u]) = ds ! j # drop (Suc j) (ds @ [u])"
      using j by (simp add: nth_append)
    show "?f j = []" unfolding d ms_spaces_unit_boundary[OF nsj] using nu by simp
  qed
  have "ms timeframe_rx_explicit (None, ds @ [u], Map.empty)
          = (if 1 \<le> length ds then ?f (length ds) else [])"
    unfolding unfold using early by (rule concat_greedy_last)
  also have "\<dots> = ms ?Y (prev_after None (ds @ [u]) (length ds), [u], [1 \<mapsto> ds])"
    using assms(1) by (cases ds) simp_all
  also have "\<dots> = [(Some u, [], [1 \<mapsto> ds, 2 \<mapsto> [u]])]"
    unfolding ms_spaces_unit_boundary[OF ns] using assms(3) by (simp add: word_after_def)
  finally show ?thesis .
qed

lemma extract_canonical_unchanged:
  assumes "canonical_timeframe tf"
  shows "extract_timeframe_flexible tf = tf"
proof -
  from assms obtain ds u where tf: "tf = ds @ [u]" and d: "ds \<noteq> []" "list_all is_digit ds" "is_unit u"
    unfolding canonical_timeframe_iff by blast
  have "re_search timeframe_rx_explicit tf = Some [1 \<mapsto> ds, 2 \<mapsto> [u]]"
    unfolding re_search_def tf
    by (subst search_from.simps) (simp add: ms_timeframe_rx_explicit[OF d])
  then show ?thesis by (simp add: extract_timeframe_flexible_def group_def tf)
qed

lemma parse_timeframe_canonical:
  assumes c: "canonical_timeframe tf"
  shows "re_match timeframe_rx (lower tf) = Some [1 \<mapsto> butlast tf, 2 \<mapsto> [last tf]]
       \<and> (\<forall>now. valid_datetime now \<longrightarrow>
              (max_str_digits < length (butlast tf) \<longrightarrow> parse_timeframe now tf = Inl ValueError)
            \<and> (length (butlast tf) \<le> max_str_digits
                 \<and> int (decimal_value (butlast tf)) * unit_microseconds (last tf) \<le> now \<longrightarrow>
               parse_timeframe now tf =
                 Inr (now - int (decimal_value (butlast tf)) * unit_microseconds (last tf), now)))"
proof (intro conjI allI impI)
  have l: "lower tf = butlast tf @ [last tf] \<or> lower tf = butlast tf @ [last tf, CHR 0x0A]"
    using canonical_parts(1)[OF c] lower_canonical_id[OF c] by simp
  show "re_match timeframe_rx (lower tf) = Some [1 \<mapsto> butlast tf, 2 \<mapsto> [last tf]]"
    using l canonical_parts(2,3,4)[OF c] by (rule re_match_timeframe_matching)
  fix now assume v: "valid_datetime now"
  note p = parse_timeframe_matching[OF v l canonical_parts(2,3,4)[OF c]]
  { assume "max_str_digits < length (butlast tf)"
    then show "parse_timeframe now tf = Inl ValueError" using p by simp }
  { assume "length (butlast tf) \<le> max_str_digits
            \<and> int (decimal_value (butlast tf)) * unit_microseconds (last tf) \<le> now"
    then show "parse_timeframe now tf =
                 Inr (now - int (decimal_value (butlast tf)) * unit_microseconds (last tf), now)"
      using p by simp }
qed

text \<open>
  Claim C10, as amended. For an ASCII text, the timeframe the extraction cascade
  gives is one or more digits and one unit letter: the three patterns give the
  digits they capture and the unit letter, or the first letter of the unit word;
  the values of the keyword table are \<^verbatim>\<open>24h\<close>, \<^verbatim>\<open>48h\<close>, \<^verbatim>\<open>7d\<close>, \<^verbatim>\<open>30d\<close> and \<^verbatim>\<open>2h\<close>;
  and without any match the result is \<^verbatim>\<open>2h\<close>. The pattern tier applies the cascade
  to the lower-cased text. So the format test of \<^verbatim>\<open>parse_timeframe\<close> accepts the
  timeframe \<open>tf\<close> of the cascade and of the pattern tier, with its digits and its
  unit. When the digits are 4300 at most and the \<open>N\<close> units do not reach back
  before \<^verbatim>\<open>datetime.min\<close>, \<^verbatim>\<open>parse_timeframe\<close> returns the pair for the \<open>N\<close> units;
  on more than 4300 digits it raises \<^verbatim>\<open>ValueError\<close>.
\<close>

theorem extract_timeframe_flexible_canonical:
  assumes "list_all is_ascii text"
  shows "canonical_timeframe (extract_timeframe_flexible text)
   \<and> map snd time_keywords = [''24h'', ''48h'', ''7d'', ''30d'', ''2h'', ''2h'']
   \<and> (re_search timeframe_rx_explicit text = None \<and> re_search timeframe_rx_last text = None
        \<and> re_search timeframe_rx_in_the_last text = None
        \<and> \<not> list_ex (contains text) (map fst time_keywords)
       \<longrightarrow> extract_timeframe_flexible text = ''2h'')
   \<and> timeframe (parse_with_patterns text) = Some (extract_timeframe_flexible (lower text))
   \<and> (\<forall>tf. tf = extract_timeframe_flexible text \<or> timeframe (parse_with_patterns text) = Some tf
         \<longrightarrow>
          canonical_timeframe tf
        \<and> re_match timeframe_rx (lower tf) = Some [1 \<mapsto> butlast tf, 2 \<mapsto> [last tf]]
        \<and> (\<forall>now. valid_datetime now \<longrightarrow>
               (max_str_digits < length (butlast tf) \<longrightarrow> parse_timeframe now tf = Inl ValueError)
             \<and> (length (butlast tf) \<le> max_str_digits
                  \<and> int (decimal_value (butlast tf)) * unit_microseconds (last tf) \<le> now \<longrightarrow>
                parse_timeframe now tf =
                  Inr (now - int (decimal_value (butlast tf)) * unit_microseconds (last tf),
                       now))))"
proof -
  have 1: "canonical_timeframe (extract_timeframe_flexible text)"
    by (rule extract_timeframe_canonical)
  have 2: "map snd time_keywords = [''24h'', ''48h'', ''7d'', ''30d'', ''2h'', ''2h'']"
    by (simp add: time_keywords_def)
  have 3: "re_search timeframe_rx_explicit text = None \<and> re_search timeframe_rx_last text = None
        \<and> re_search timeframe_rx_in_the_last text = None
        \<and> \<not> list_ex (contains text) (map fst time_keywords)
       \<longrightarrow> extract_timeframe_flexible text = ''2h''"
    by (simp add: extract_timeframe_flexible_def keyword_timeframe_default)
  have 4: "timeframe (parse_with_patterns text) = Some (extract_timeframe_flexible (lower text))"
    by (simp add: parse_with_patterns_def Let_def)
  have 5: "\<forall>tf. tf = extract_timeframe_flexible text \<or> timeframe (parse_with_patterns text) = Some tf
         \<longrightarrow>
          canonical_timeframe tf
        \<and> re_match timeframe_rx (lower tf) = Some [1 \<mapsto> butlast tf, 2 \<mapsto> [last tf]]
        \<and> (\<forall>now. valid_datetime now \<longrightarrow>
               (max_str_digits < length (butlast tf) \<longrightarrow> parse_timeframe now tf = Inl ValueError)
             \<and> (length (butlast tf) \<le> max_str_digits
                  \<and> int (decimal_value (butlast tf)) * unit_microseconds (last tf) \<le> now \<longrightarrow>
                parse_timeframe now tf =
                  Inr (now - int (decimal_value (butlast tf)) * unit_microseconds (last tf),
                       now)))"
  proof (intro allI impI)
    fix tf
    assume "tf = extract_timeframe_flexible text \<or> timeframe (parse_with_patterns text) = Some tf"
    then have "tf = extract_timeframe_flexible text \<or> tf = extract_timeframe_flexible (lower text)"
      unfolding 4 by auto
    then have c: "canonical_timeframe tf" using extract_timeframe_canonical by auto
    show "canonical_timeframe tf
        \<and> re_match timeframe_rx (lower tf) = Some [1 \<mapsto> butlast tf, 2 \<mapsto> [last tf]]
        \<and> (\<forall>now. valid_datetime now \<longrightarrow>
               (max_str_digits < length (butlast tf) \<longrightarrow> parse_timeframe now tf = Inl ValueError)
             \<and> (length (butlast tf) \<le> max_str_digits
                  \<and> int (decimal_value (butlast tf)) * unit_microseconds (last tf) \<le> now \<longrightarrow>
                parse_timeframe now tf =
                  Inr (now - int (decimal_value (butlast tf)) * unit_microseconds (last tf),
                       now)))"
      using c parse_timeframe_canonical[OF c] by (intro conjI) simp_all
  qed
  from 1 2 3 4 5 show ?thesis by (intro conjI)
qed

text \<open>A space between the number and the unit, in a question to the pattern tier.\<close>

theorem extract_timeframe_flexible_canonical_witness:
  "extract_timeframe_flexible ''2 h'' = ''2h''
   \<and> timeframe (parse_with_patterns ''Errors in the last 2 H'') = Some ''2h''
   \<and> canonical_timeframe ''2h''
   \<and> parse_timeframe example_now ''2h'' = Inr (63929340000000000, 63929347200000000)"
proof -
  have e: "extract_timeframe_flexible ''2 h'' = ''2h''" by code_simp
  have a: "list_all is_ascii ''2 h''" "list_all is_ascii ''Errors in the last 2 H''"
    by (simp_all add: is_ascii_def)
  have v: "valid_datetime example_now"
    by (simp add: valid_datetime_def example_now_def microseconds_per_day_def)
  have l: "extract_timeframe_flexible (lower ''Errors in the last 2 H'') = ''2h''" by code_simp
  have p: "timeframe (parse_with_patterns ''Errors in the last 2 H'') = Some ''2h''"
    using extract_timeframe_flexible_canonical[OF a(2), THEN conjunct2, THEN conjunct2,
                                               THEN conjunct2, THEN conjunct1]
    unfolding l .
  note t = extract_timeframe_flexible_canonical[OF a(1), THEN conjunct2, THEN conjunct2,
             THEN conjunct2, THEN conjunct2, rule_format, of "''2h''"]
  have t2: "canonical_timeframe ''2h''
        \<and> re_match timeframe_rx (lower ''2h'') = Some [1 \<mapsto> butlast ''2h'', 2 \<mapsto> [last ''2h'']]
        \<and> (\<forall>now. valid_datetime now \<longrightarrow>
               (max_str_digits < length (butlast ''2h'') \<longrightarrow>
                  parse_timeframe now ''2h'' = Inl ValueError)
             \<and> (length (butlast ''2h'') \<le> max_str_digits
                  \<and> int (decimal_value (butlast ''2h'')) * unit_microseconds (last ''2h'') \<le> now \<longrightarrow>
                parse_timeframe now ''2h'' =
                  Inr (now - int (decimal_value (butlast ''2h'')) * unit_microseconds (last ''2h''),
                       now)))"
    using t e by simp
  have n: "int (decimal_value (butlast ''2h'')) * unit_microseconds (last ''2h'') = 7200000000"
    "length (butlast ''2h'') \<le> max_str_digits"
    by (simp_all add: decimal_value_def digit_value_def digit_chars_def unit_microseconds_def
        max_str_digits_def)
  have "parse_timeframe example_now ''2h'' = Inr (63929340000000000, 63929347200000000)"
    using t2[THEN conjunct2, THEN conjunct2, rule_format, OF v, THEN conjunct2]
    unfolding n(1) using n(2) by (simp add: example_now_def microseconds_per_day_def)
  then show ?thesis using e p t2 by (intro conjI) simp_all
qed

text \<open>The claim as it stands fails for a text that is a timeframe of 4301 digits:
  the pattern tier hands it on as it is, and \<^verbatim>\<open>parse_timeframe\<close> raises
  \<^verbatim>\<open>ValueError\<close> on it.\<close>

theorem extracted_timeframe_digit_limit:
  "length long_digits = 4301
   \<and> list_all is_digit long_digits
   \<and> timeframe (parse_with_patterns (long_digits @ ''h'')) = Some (long_digits @ ''h'')
   \<and> valid_datetime example_now
   \<and> parse_timeframe example_now (long_digits @ ''h'') = Inl ValueError"
proof -
  have 1: "length long_digits = 4301" by (simp add: long_digits_def)
  have u: "is_unit CHR ''h''" by (simp add: is_unit_def)
  have "canonical_timeframe (long_digits @ [CHR ''h''])"
    unfolding canonical_timeframe_iff using long_digits_facts(1,2) u by blast
  then have "extract_timeframe_flexible (long_digits @ [CHR ''h'']) = long_digits @ [CHR ''h'']"
    by (rule extract_canonical_unchanged)
  then have 2: "timeframe (parse_with_patterns (long_digits @ ''h'')) = Some (long_digits @ ''h'')"
    using long_timeframe_lower by (simp add: parse_with_patterns_def Let_def)
  have v: "valid_datetime example_now"
    by (simp add: valid_datetime_def example_now_def microseconds_per_day_def)
  have l: "lower (long_digits @ ''h'') = long_digits @ [CHR ''h'']
           \<or> lower (long_digits @ ''h'') = long_digits @ [CHR ''h'', CHR 0x0A]"
    using long_timeframe_lower by simp
  have 3: "parse_timeframe example_now (long_digits @ ''h'') = Inl ValueError"
    using parse_timeframe_matching[OF v l long_digits_facts(1,2) u] long_digits_facts(3)
    by simp
  from 1 long_digits_facts(2) 2 v 3 show ?thesis by (intro conjI)
qed

text \<open>A text that asks for 9999999 weeks: the pattern tier hands the timeframe on,
  and \<^verbatim>\<open>parse_timeframe\<close> raises \<^verbatim>\<open>OverflowError\<close> on it.\<close>

lemma extracted_timeframe_overflows:
  "timeframe (parse_with_patterns ''Check payment-api 9999999w'') = Some ''9999999w''
   \<and> valid_datetime example_now
   \<and> parse_timeframe example_now ''9999999w'' = Inl OverflowError"
proof -
  have "parse_with_patterns ''Check payment-api 9999999w''
          = \<lparr>intent_type = Some ''check_abnormality'', service_name = Some ''payment-api'',
             timeframe = Some ''9999999w'', additional_context = Some [],
             raw_query = ''Check payment-api 9999999w'', is_followup = False\<rparr>"
    by code_simp
  then have 1: "timeframe (parse_with_patterns ''Check payment-api 9999999w'') = Some ''9999999w''"
    by simp
  have v: "valid_datetime example_now"
    by (simp add: valid_datetime_def example_now_def microseconds_per_day_def)
  have l: "lower ''9999999w'' = ''9999999'' @ [CHR ''w''] \<or>
           lower ''9999999w'' = ''9999999'' @ [CHR ''w'', CHR 0x0A]" by code_simp
  have d: "''9999999'' \<noteq> []" "list_all is_digit ''9999999''" "is_unit CHR ''w''"
    by (simp_all add: is_digit_def digit_chars_def is_unit_def)
  have n: "int (decimal_value ''9999999'') * unit_microseconds CHR ''w'' = 6047999395200000000"
    by (simp add: decimal_value_def digit_value_def digit_chars_def unit_microseconds_def)
  have "parse_timeframe example_now ''9999999w'' = Inl OverflowError"
    using parse_timeframe_matching[OF v l d] unfolding n
    by (simp add: example_now_def microseconds_per_day_def max_str_digits_def)
  then show ?thesis using 1 v by (intro conjI)
qed

end
